(* ===== verification/Prelude.thy ===== *)
theory Prelude
  imports Main "HOL-Library.Word"
begin

text \<open>
  Shared vocabulary of the development: the machine types, Rust strings, the
  result type and its loops, slices cut into chunks, and little-endian words.
  Everything here models the part of the Rust language and of its standard
  library that the transport uses; nothing here is code of the repository.

  \<^item> \<open>byte\<close> and \<open>u32\<close> are words of their width.  A \<open>usize\<close> is a \<open>nat\<close>: the lengths the
    program computes are lengths of vectors that exist in memory.
  \<^item> A Rust \<open>String\<close> is its sequence of Unicode scalar values, \<open>rstr\<close>; a literal is
    \<open>lit ''...''\<close>.
  \<^item> \<open>Result<T, E>\<close> is \<open>'e + 'a\<close>, with \<open>Inl\<close> for \<open>Err\<close>.
\<close>

unbundle bit_operations_syntax

section \<open>Automation shared by the components\<close>

named_theorems wire_simps \<open>byte-level encoding facts\<close>
named_theorems state_simps \<open>facts about the observable effect of an operation on a state record\<close>

section \<open>Machine types and strings\<close>

type_synonym byte = "8 word"
type_synonym u32 = "32 word"
type_synonym rstr = "nat list"

definition lit :: "string \<Rightarrow> rstr" where
  "lit s = map of_char s"

lemma lit_append: "lit (s @ t) = lit s @ lit t"
  by (simp add: lit_def)

lemma length_lit [simp]: "length (lit s) = length s"
  by (simp add: lit_def)

text \<open>Decimal rendering of an unsigned integer, as \<open>Display\<close> prints it.\<close>

fun show_nat :: "nat \<Rightarrow> rstr" where
  "show_nat n = (if n < 10 then [48 + n] else show_nat (n div 10) @ [48 + n mod 10])"

declare show_nat.simps [simp del]

section \<open>Results\<close>

text \<open>The \<open>map_err\<close> method, and \<open>?\<close> as the bind of the result type.\<close>

fun map_err :: "('e \<Rightarrow> 'f) \<Rightarrow> 'e + 'a \<Rightarrow> 'f + 'a" where
  "map_err f (Inl e) = Inl (f e)"
| "map_err f (Inr x) = Inr x"

fun res_bind :: "'e + 'a \<Rightarrow> ('a \<Rightarrow> 'e + 'b) \<Rightarrow> 'e + 'b" where
  "res_bind (Inl e) k = Inl e"
| "res_bind (Inr x) k = k x"

fun is_ok :: "'e + 'a \<Rightarrow> bool" where
  "is_ok (Inl e) = False"
| "is_ok (Inr x) = True"

lemma map_err_eq_Inr [simp]: "map_err f r = Inr x \<longleftrightarrow> r = Inr x"
  by (cases r) auto

lemma map_err_eq_Inl: "map_err f r = Inl e \<longleftrightarrow> (\<exists>e'. r = Inl e' \<and> e = f e')"
  by (cases r) auto

lemma is_ok_iff: "is_ok r \<longleftrightarrow> (\<exists>x. r = Inr x)"
  by (cases r) auto

text \<open>
  The loop \<open>for x in xs { out.push(self.f(x)?) }\<close>: it threads the state through
  the elements, collects the results and stops at the first error.
\<close>

fun try_map :: "('s \<Rightarrow> 'a \<Rightarrow> ('e + 'b) \<times> 's) \<Rightarrow> 's \<Rightarrow> 'a list \<Rightarrow> ('e + 'b list) \<times> 's" where
  "try_map f s [] = (Inr [], s)"
| "try_map f s (x # xs) =
     (case f s x of
        (Inl e, s1) \<Rightarrow> (Inl e, s1)
      | (Inr y, s1) \<Rightarrow>
          (case try_map f s1 xs of
             (Inl e, s2) \<Rightarrow> (Inl e, s2)
           | (Inr ys, s2) \<Rightarrow> (Inr (y # ys), s2)))"

lemma try_map_length: "try_map f s xs = (Inr ys, s') \<Longrightarrow> length ys = length xs"
  by (induction xs arbitrary: s ys) (auto split: prod.splits sum.splits)

lemma try_map_append:
  "try_map f s (xs @ ys) =
     (case try_map f s xs of
        (Inl e, s1) \<Rightarrow> (Inl e, s1)
      | (Inr us, s1) \<Rightarrow>
          (case try_map f s1 ys of
             (Inl e, s2) \<Rightarrow> (Inl e, s2)
           | (Inr vs, s2) \<Rightarrow> (Inr (us @ vs), s2)))"
  by (induction xs arbitrary: s) (auto split: prod.splits sum.splits)

text \<open>A state predicate that every call of the body keeps is kept by the loop.\<close>

lemma try_map_invariant:
  assumes "\<And>s x r s'. P s \<Longrightarrow> f s x = (r, s') \<Longrightarrow> P s'"
  shows "P s \<Longrightarrow> try_map f s xs = (r, s') \<Longrightarrow> P s'"
  by (induction xs arbitrary: s r) (auto split: prod.splits sum.splits dest: assms)

section \<open>Slices cut into chunks\<close>

text \<open>
  \<open>slice::chunks(n)\<close>: consecutive pieces of \<open>n\<close> elements, the last one possibly shorter.
  Rust panics for \<open>n = 0\<close>; the only call passes a positive constant.
\<close>

function chunks :: "nat \<Rightarrow> 'a list \<Rightarrow> 'a list list" where
  "chunks n xs = (if n = 0 \<or> xs = [] then [] else take n xs # chunks n (drop n xs))"
  by pat_completeness auto
termination
  by (relation "measure (\<lambda>(n, xs). length xs)") auto

declare chunks.simps [simp del]

lemma chunks_Nil [simp]: "chunks n [] = []"
  by (simp add: chunks.simps)

lemma concat_chunks: "0 < n \<Longrightarrow> concat (chunks n xs) = xs"
proof (induction n xs rule: chunks.induct)
  case (1 n xs)
  show ?case
  proof (cases "xs = []")
    case False
    with 1 have "concat (chunks n (drop n xs)) = drop n xs" by simp
    with False "1.prems" show ?thesis by (subst chunks.simps) simp
  qed simp
qed

lemma chunks_elem: "c \<in> set (chunks n xs) \<Longrightarrow> c \<noteq> [] \<and> length c \<le> n"
proof (induction n xs rule: chunks.induct)
  case (1 n xs)
  then show ?case by (subst (asm) (2) chunks.simps) (auto split: if_splits)
qed

lemma length_chunks: "0 < n \<Longrightarrow> length (chunks n xs) = (length xs + n - 1) div n"
proof (induction n xs rule: chunks.induct)
  case (1 n xs)
  consider "xs = []" | "xs \<noteq> []" "n \<le> length xs" | "xs \<noteq> []" "length xs < n" by linarith
  then show ?case
  proof cases
    case 2
    with 1 have IH: "length (chunks n (drop n xs)) = (length xs - 1) div n" by simp
    from 2 "1.prems" have "length xs + n - 1 = (length xs - 1) + n" by (cases xs) auto
    then have "(length xs + n - 1) div n = Suc ((length xs - 1) div n)"
      using "1.prems" by (simp only: div_add_self2)
    with IH 2 "1.prems" show ?thesis by (subst chunks.simps) simp
  next
    case 3
    then have "(length xs + n - 1) div n = 1"
      by (intro div_nat_eqI; cases xs) auto
    with 3 "1.prems" show ?thesis by (subst chunks.simps) simp
  qed (use "1.prems" in simp)
qed

lemma hd_chunks: "0 < n \<Longrightarrow> xs \<noteq> [] \<Longrightarrow> chunks n xs = take n xs # chunks n (drop n xs)"
  by (subst chunks.simps) simp

section \<open>Little-endian 32-bit words\<close>

definition u32_to_le_bytes :: "u32 \<Rightarrow> byte list" where
  "u32_to_le_bytes w = [ucast w, ucast (drop_bit 8 w), ucast (drop_bit 16 w), ucast (drop_bit 24 w)]"

definition u32_from_le_bytes :: "byte list \<Rightarrow> u32" where
  "u32_from_le_bytes bs =
     ucast (bs ! 0) OR push_bit 8 (ucast (bs ! 1)) OR push_bit 16 (ucast (bs ! 2)) OR push_bit 24 (ucast (bs ! 3))"

lemma length_u32_to_le_bytes [simp]: "length (u32_to_le_bytes w) = 4"
  by (simp add: u32_to_le_bytes_def)

lemma u32_le_bytes_roundtrip [simp]: "u32_from_le_bytes (u32_to_le_bytes w) = w"
proof (rule bit_word_eqI)
  fix n assume "n < LENGTH(32)"
  then consider "n < 8" | "8 \<le> n" "n < 16" | "16 \<le> n" "n < 24" | "24 \<le> n" "n < 32"
    by fastforce
  then show "bit (u32_from_le_bytes (u32_to_le_bytes w)) n = bit w n"
    by cases (auto simp: u32_from_le_bytes_def u32_to_le_bytes_def bit_simps)
qed

end
