(* ===== verification/Errors.thy ===== *)
theory Errors
  imports Prelude
begin

text \<open>
  \<open>src/error.rs\<close>: the two error enums, the text \<open>thiserror\<close> derives for them (the
  connection loop stores it in \<open>ConnectionState::Error\<close>), and the conversions between
  them.  The features \<open>crypto\<close> and \<open>http\<close> are on.
\<close>

section \<open>The error types\<close>

datatype transport_error =
    ConnectionFailed rstr
  | ConnectionClosed
  | NoEndpoints
  | InvalidUrl rstr
  | NoiseHandshakeFailed rstr
  | NoiseEncryptFailed rstr
  | NoiseDecryptFailed rstr
  | Unauthorized
  | AuthTimeout
  | SessionExpired
  | VersionMismatch (vm_client: rstr) (vm_server: rstr)
  | ProtocolHandshakeFailed
  | PayloadTooLarge (max_payload: nat)
  | EncodeError rstr
  | DecodeError rstr
  | RequestTimeout
  | ChannelError
  | BufferFull
  | HttpError rstr
  | SseStreamClosed

datatype crypto_error =
    PatternParse rstr
  | HandshakeFailed rstr
  | EncryptFailed rstr
  | DecryptFailed rstr
  | InvalidState
  | InvalidKeyLength

section \<open>Display\<close>

fun transport_error_to_string :: "transport_error \<Rightarrow> rstr" where
  "transport_error_to_string (ConnectionFailed s) = lit ''connection failed: '' @ s"
| "transport_error_to_string ConnectionClosed = lit ''connection closed''"
| "transport_error_to_string NoEndpoints = lit ''endpoint list is empty''"
| "transport_error_to_string (InvalidUrl s) = lit ''invalid endpoint URL: '' @ s"
| "transport_error_to_string (NoiseHandshakeFailed s) = lit ''noise handshake failed: '' @ s"
| "transport_error_to_string (NoiseEncryptFailed s) = lit ''noise encryption failed: '' @ s"
| "transport_error_to_string (NoiseDecryptFailed s) = lit ''noise decryption failed: '' @ s"
| "transport_error_to_string Unauthorized = lit ''authentication failed: unauthorized''"
| "transport_error_to_string AuthTimeout = lit ''authentication timed out''"
| "transport_error_to_string SessionExpired = lit ''session expired''"
| "transport_error_to_string (VersionMismatch c s) =
     lit ''version mismatch: client='' @ c @ lit '', server='' @ s"
| "transport_error_to_string ProtocolHandshakeFailed = lit ''protocol handshake failed''"
| "transport_error_to_string (PayloadTooLarge n) =
     lit ''payload exceeds maximum size of '' @ show_nat n @ lit '' bytes''"
| "transport_error_to_string (EncodeError s) = lit ''frame encoding failed: '' @ s"
| "transport_error_to_string (DecodeError s) = lit ''frame decoding failed: '' @ s"
| "transport_error_to_string RequestTimeout = lit ''request timed out''"
| "transport_error_to_string ChannelError = lit ''internal channel error''"
| "transport_error_to_string BufferFull = lit ''buffer is full, cannot enqueue frame''"
| "transport_error_to_string (HttpError s) = lit ''http error: '' @ s"
| "transport_error_to_string SseStreamClosed = lit ''sse stream closed''"

fun crypto_error_to_string :: "crypto_error \<Rightarrow> rstr" where
  "crypto_error_to_string (PatternParse s) = lit ''noise pattern parse error: '' @ s"
| "crypto_error_to_string (HandshakeFailed s) = lit ''noise handshake failed: '' @ s"
| "crypto_error_to_string (EncryptFailed s) = lit ''noise encryption failed: '' @ s"
| "crypto_error_to_string (DecryptFailed s) = lit ''noise decryption failed: '' @ s"
| "crypto_error_to_string InvalidState = lit ''invalid noise state''"
| "crypto_error_to_string InvalidKeyLength = lit ''unexpected key length''"

section \<open>Conversions\<close>

text \<open>\<open>impl From<postcard::Error> for TransportError\<close>; the argument is the error's text.\<close>

definition from_postcard_error :: "rstr \<Rightarrow> transport_error" where
  "from_postcard_error e = DecodeError e"

text \<open>\<open>impl From<CryptoError> for TransportError\<close>.\<close>

fun from_crypto_error :: "crypto_error \<Rightarrow> transport_error" where
  "from_crypto_error (HandshakeFailed s) = NoiseHandshakeFailed s"
| "from_crypto_error (EncryptFailed s) = NoiseEncryptFailed s"
| "from_crypto_error (DecryptFailed s) = NoiseDecryptFailed s"
| "from_crypto_error other = ConnectionFailed (crypto_error_to_string other)"

text \<open>
  The conversion keeps the text for the three errors it translates and prefixes the
  text of the others.
\<close>

lemma from_crypto_error_to_string:
  "transport_error_to_string (from_crypto_error e) =
     (case e of
        PatternParse s \<Rightarrow> lit ''connection failed: '' @ crypto_error_to_string e
      | InvalidState \<Rightarrow> lit ''connection failed: '' @ crypto_error_to_string e
      | InvalidKeyLength \<Rightarrow> lit ''connection failed: '' @ crypto_error_to_string e
      | _ \<Rightarrow> crypto_error_to_string e)"
  by (cases e) simp_all

lemma from_crypto_error_not_Unauthorized [simp]: "from_crypto_error e \<noteq> Unauthorized"
  by (cases e) simp_all

end
