(* ===== verification/Transport.thy ===== *)
theory Transport
  imports Errors
begin

text \<open>
  The channel ends the transport writes commands to, and the part of the \<open>Transport\<close> trait
  (\<open>src/transport.rs\<close>) both clients implement with state of their own: the endpoint.

  A channel is a parameter: \<open>try_send\<close> and the awaited \<open>send\<close> on a channel state \<open>'c\<close>.  Their
  errors are tokio's: the channel is full or closed, and an awaited send fails only when closed.
\<close>

datatype try_send_error = Full | Closed

record ('c, 'm) mpsc_sender =
  try_send :: "'c \<Rightarrow> 'm \<Rightarrow> try_send_error option \<times> 'c"
  send_wait :: "'c \<Rightarrow> 'm \<Rightarrow> bool \<times> 'c"

fun from_try_send_error :: "try_send_error \<Rightarrow> transport_error" where
  "from_try_send_error Full = BufferFull"
| "from_try_send_error Closed = ChannelError"

definition try_send_cmd :: "('c, 'm) mpsc_sender \<Rightarrow> 'c \<Rightarrow> 'm \<Rightarrow> (transport_error + unit) \<times> 'c" where
  "try_send_cmd mp tx cmd =
     (case try_send mp tx cmd of
        (None, tx1) \<Rightarrow> (Inr (), tx1)
      | (Some e, tx1) \<Rightarrow> (Inl (from_try_send_error e), tx1))"

text \<open>A bounded queue, for the witnesses.\<close>

definition list_sender :: "('m list, 'm) mpsc_sender" where
  "list_sender = \<lparr>try_send = (\<lambda>q m. if length q < 8 then (None, q @ [m]) else (Some Full, q)),
                  send_wait = (\<lambda>q m. (True, q @ [m]))\<rparr>"

section \<open>The endpoint contract\<close>

text \<open>
  Setting a valid URL makes it the endpoint (as \<open>shown\<close> prints it), an invalid one is
  refused with \<open>InvalidUrl\<close> and changes nothing, clearing leaves none.
\<close>

datatype endpoint_op = SetEndpoint rstr | ClearEndpoint

fun run_ep :: "('s \<Rightarrow> rstr \<Rightarrow> (transport_error + unit) \<times> 's) \<Rightarrow> ('s \<Rightarrow> 's) \<Rightarrow> 's \<Rightarrow> endpoint_op list \<Rightarrow> 's" where
  "run_ep set_ep clear_ep s [] = s"
| "run_ep set_ep clear_ep s (SetEndpoint u # ops) = run_ep set_ep clear_ep (snd (set_ep s u)) ops"
| "run_ep set_ep clear_ep s (ClearEndpoint # ops) = run_ep set_ep clear_ep (clear_ep s) ops"

text \<open>What the endpoint should be after a history of calls.\<close>

fun last_ep :: "(rstr \<Rightarrow> rstr option) \<Rightarrow> rstr option \<Rightarrow> endpoint_op list \<Rightarrow> rstr option" where
  "last_ep shown e [] = e"
| "last_ep shown e (SetEndpoint u # ops) = last_ep shown (case shown u of None \<Rightarrow> e | Some v \<Rightarrow> Some v) ops"
| "last_ep shown e (ClearEndpoint # ops) = last_ep shown None ops"

locale endpoint_store =
  fixes set_ep :: "'s \<Rightarrow> rstr \<Rightarrow> (transport_error + unit) \<times> 's"
    and clear_ep :: "'s \<Rightarrow> 's"
    and get_ep :: "'s \<Rightarrow> rstr option"
    and shown :: "rstr \<Rightarrow> rstr option"
  assumes set_valid: "shown u = Some v \<Longrightarrow> \<exists>s'. set_ep s u = (Inr (), s') \<and> get_ep s' = Some v"
    and set_invalid: "shown u = None \<Longrightarrow> set_ep s u = (Inl (InvalidUrl u), s)"
    and get_clear: "get_ep (clear_ep s) = None"
begin

lemma endpoint_history: "get_ep (run_ep set_ep clear_ep s ops) = last_ep shown (get_ep s) ops"
proof (induction ops arbitrary: s)
  case (Cons op ops)
  show ?case
  proof (cases op)
    case (SetEndpoint u)
    show ?thesis
    proof (cases "shown u")
      case None
      with SetEndpoint Cons show ?thesis by (simp add: set_invalid)
    next
      case (Some v)
      with set_valid [OF Some, of s] SetEndpoint Cons show ?thesis by auto
    qed
  next
    case ClearEndpoint
    with Cons show ?thesis by (simp add: get_clear)
  qed
qed simp

end

end
