(* ===== verification/Frame.thy ===== *)
theory Frame
  imports Errors
begin

text \<open>
  \<open>src/frame.rs\<close>: the frame, its length-prefixed encoding, and the accumulator that
  reassembles a frame from the chunks the Noise layer splits it into.

  The \<open>postcard\<close> crate is a parameter: a record of its two functions on frames.  What
  the transport relies on is \<open>postcard_ok\<close>: decoding what was encoded gives the frame back.
\<close>

section \<open>Frames\<close>

datatype frame_kind = Message | Event | Ping | Pong

record frame =
  f_id :: u32
  f_kind :: frame_kind
  f_data :: "byte list"

record postcard =
  to_stdvec :: "frame \<Rightarrow> rstr + byte list"
  from_bytes :: "byte list \<Rightarrow> rstr + frame"

definition postcard_ok :: "postcard \<Rightarrow> bool" where
  "postcard_ok pc \<longleftrightarrow>
     (\<forall>f bs. to_stdvec pc f = Inr bs \<longrightarrow> from_bytes pc bs = Inr f)"

definition encode_frame :: "postcard \<Rightarrow> frame \<Rightarrow> transport_error + byte list" where
  "encode_frame pc f =
     (case map_err EncodeError (to_stdvec pc f) of
        Inl e \<Rightarrow> Inl e
      | Inr payload \<Rightarrow> Inr (u32_to_le_bytes (of_nat (length payload)) @ payload))"

definition decode_frame :: "postcard \<Rightarrow> byte list \<Rightarrow> transport_error + frame" where
  "decode_frame pc data = map_err DecodeError (from_bytes pc data)"

section \<open>The accumulator\<close>

record frame_accumulator =
  expected_len :: nat
  buffer :: "byte list"

definition acc_new :: frame_accumulator where
  "acc_new = \<lparr>expected_len = 0, buffer = []\<rparr>"

text \<open>The end of \<open>feed\<close>: hand out the frame's bytes once they are all there.\<close>

definition feed_finish :: "frame_accumulator \<Rightarrow> (transport_error + byte list option) \<times> frame_accumulator" where
  "feed_finish acc =
     (if expected_len acc \<le> length (buffer acc)
      then (Inr (Some (take (expected_len acc) (buffer acc))), acc\<lparr>expected_len := 0, buffer := []\<rparr>)
      else (Inr None, acc))"

text \<open>
  The conversion of the four bytes to an array cannot fail on a slice of length four, so
  its error branch does not appear.
\<close>

definition feed :: "frame_accumulator \<Rightarrow> byte list \<Rightarrow> nat \<Rightarrow>
    (transport_error + byte list option) \<times> frame_accumulator" where
  "feed acc chunk max_bytes =
     (if expected_len acc = 0 then
        if length chunk < 4 then
          (Inl (DecodeError (lit ''frame too short for length prefix'')), acc)
        else
          let acc1 = acc\<lparr>expected_len := unat (u32_from_le_bytes (take 4 chunk))\<rparr> in
          if max_bytes < expected_len acc1 then (Inl (PayloadTooLarge max_bytes), acc1)
          else feed_finish (acc1\<lparr>buffer := drop 4 chunk\<rparr>)
      else
        let acc1 = acc\<lparr>buffer := buffer acc @ chunk\<rparr> in
        if max_bytes < length (buffer acc1) then (Inl (PayloadTooLarge max_bytes), acc1)
        else feed_finish acc1)"

section \<open>Encoding\<close>

lemma encode_frame_eq_Inr:
  "encode_frame pc f = Inr bs \<longleftrightarrow>
     (\<exists>p. to_stdvec pc f = Inr p \<and> bs = u32_to_le_bytes (of_nat (length p)) @ p)"
  by (auto simp: encode_frame_def split: sum.splits)

lemma encode_frame_length: "encode_frame pc f = Inr bs \<Longrightarrow> 4 \<le> length bs"
  by (auto simp: encode_frame_eq_Inr)

lemma decode_encoded_payload:
  "postcard_ok pc \<Longrightarrow> to_stdvec pc f = Inr p \<Longrightarrow> decode_frame pc p = Inr f"
  by (simp add: postcard_ok_def decode_frame_def)

section \<open>The accumulator's invariant\<close>

text \<open>
  Between two calls that succeeded the accumulator is either idle, or holds a proper
  prefix of a frame whose declared length is within the limit.
\<close>

definition acc_wf :: "nat \<Rightarrow> frame_accumulator \<Rightarrow> bool" where
  "acc_wf max_bytes acc \<longleftrightarrow>
     (if expected_len acc = 0 then buffer acc = []
      else length (buffer acc) < expected_len acc \<and> expected_len acc \<le> max_bytes)"

lemma acc_wf_new [simp]: "acc_wf m acc_new"
  by (simp add: acc_wf_def acc_new_def)

lemma feed_finish_Inr: "\<exists>r acc'. feed_finish acc = (Inr r, acc')"
  by (simp add: feed_finish_def)

lemma feed_finish_wf:
  assumes "feed_finish acc = (r, acc')" "expected_len acc \<le> m"
  shows "acc_wf m acc'"
  using assms by (auto simp: feed_finish_def acc_wf_def split: if_splits)

lemma feed_wf:
  assumes "acc_wf m acc" "feed acc c m = (Inr r, acc')"
  shows "acc_wf m acc'"
  using assms by (auto simp: feed_def Let_def acc_wf_def [of m acc] split: if_splits elim: feed_finish_wf)

lemma feed_output_bound:
  assumes "acc_wf m acc" "feed acc c m = (Inr (Some bs), acc')"
  shows "length bs \<le> m"
  using assms by (auto simp: feed_def feed_finish_def Let_def acc_wf_def split: if_splits)

text \<open>Once the declared length exceeds the limit, no later call hands out a frame.\<close>

definition acc_poisoned :: "nat \<Rightarrow> frame_accumulator \<Rightarrow> bool" where
  "acc_poisoned m acc \<longleftrightarrow> m < expected_len acc"

lemma feed_poisoned:
  assumes "acc_poisoned m acc" "feed acc c m = (r, acc')"
  shows "acc_poisoned m acc' \<and> (\<forall>bs. r \<noteq> Inr (Some bs))"
  using assms by (auto simp: feed_def feed_finish_def Let_def acc_poisoned_def split: if_splits)

lemma feed_poisons:
  assumes "expected_len acc = 0" "feed acc c m = (Inl (PayloadTooLarge k), acc')"
  shows "acc_poisoned m acc'"
  using assms by (auto simp: feed_def feed_finish_def Let_def acc_poisoned_def split: if_splits)

section \<open>Reassembly\<close>

text \<open>
  What the three receive loops do with an accumulator: feed it chunk after chunk, stop at
  the first error, and hand on each frame as it completes.
\<close>

fun feed_chunks :: "('s \<Rightarrow> byte list \<Rightarrow> ('e + 'o option) \<times> 's) \<Rightarrow> 's \<Rightarrow> byte list list \<Rightarrow>
    ('e + 'o list) \<times> 's" where
  "feed_chunks fd s [] = (Inr [], s)"
| "feed_chunks fd s (c # cs) =
     (case fd s c of
        (Inl e, s1) \<Rightarrow> (Inl e, s1)
      | (Inr out, s1) \<Rightarrow>
          (case feed_chunks fd s1 cs of
             (Inl e, s2) \<Rightarrow> (Inl e, s2)
           | (Inr outs, s2) \<Rightarrow> (Inr ((case out of None \<Rightarrow> outs | Some p \<Rightarrow> p # outs)), s2)))"

lemma feed_chunks_append:
  "feed_chunks fd s cs = (Inr ps, s1) \<Longrightarrow> feed_chunks fd s1 ds = (Inr qs, s2) \<Longrightarrow>
   feed_chunks fd s (cs @ ds) = (Inr (ps @ qs), s2)"
  by (induction cs arbitrary: s ps) (auto split: prod.splits sum.splits option.splits)

text \<open>The results of feeding one chunk after the other, errors or not: an accumulator does not stop its caller.\<close>

fun feed_every :: "nat \<Rightarrow> frame_accumulator \<Rightarrow> byte list list \<Rightarrow> (transport_error + byte list option) list" where
  "feed_every m acc [] = []"
| "feed_every m acc (c # cs) = (case feed acc c m of (r, acc1) \<Rightarrow> r # feed_every m acc1 cs)"

lemma length_feed_every: "length (feed_every m acc cs) = length cs"
  by (induction m acc cs rule: feed_every.induct) (auto split: prod.splits)

lemma feed_every_poisoned: "acc_poisoned m acc \<Longrightarrow> r \<in> set (feed_every m acc cs) \<Longrightarrow> r \<noteq> Inr (Some bs)"
proof (induction cs arbitrary: acc)
  case (Cons c cs)
  obtain r1 acc1 where step: "feed acc c m = (r1, acc1)" by fastforce
  with feed_poisoned [OF Cons.prems(1) step] Cons.IH [of acc1] Cons.prems(2) show ?case by auto
qed simp

text \<open>
  The contract of a reassembler: fed the chunks of one payload it is back in its idle state
  with that payload as its only output, and it gives nothing before the last chunk.
\<close>

locale reassembler =
  fixes fd :: "'s \<Rightarrow> byte list \<Rightarrow> ('e + byte list option) \<times> 's"
    and idle :: 's
    and split_of :: "byte list \<Rightarrow> byte list list \<Rightarrow> bool"
  assumes complete: "split_of p cs \<Longrightarrow> feed_chunks fd idle cs = (Inr [p], idle)"
    and early: "split_of p (cs @ ds) \<Longrightarrow> ds \<noteq> [] \<Longrightarrow> \<exists>s. feed_chunks fd idle cs = (Inr [], s)"
begin

lemma stream: "list_all2 split_of ps css \<Longrightarrow> feed_chunks fd idle (concat css) = (Inr ps, idle)"
proof (induction rule: list_all2_induct)
  case (Cons p ps cs css)
  then show ?case using feed_chunks_append [OF complete [of p cs]] by simp
qed simp

lemma interrupted_stream:
  assumes "list_all2 split_of ps css" "split_of p (cs @ ds)" "ds \<noteq> []"
  shows "\<exists>s. feed_chunks fd idle (concat css @ cs) = (Inr ps, s)"
  using feed_chunks_append [OF stream [OF assms(1)]] early [OF assms(2,3)] by fastforce

end

text \<open>
  The chunks a frame may arrive in: the length prefix is within the first one, no later
  one is empty, and the declared length fits the prefix and the limit.
\<close>

definition frame_split :: "nat \<Rightarrow> byte list \<Rightarrow> byte list list \<Rightarrow> bool" where
  "frame_split m p cs \<longleftrightarrow>
     length p < 2 ^ 32 \<and> length p \<le> m \<and>
     concat cs = u32_to_le_bytes (of_nat (length p)) @ p \<and>
     cs \<noteq> [] \<and> 4 \<le> length (hd cs) \<and> [] \<notin> set (tl cs)"

lemma concat_pos: "cs \<noteq> [] \<Longrightarrow> [] \<notin> set cs \<Longrightarrow> 0 < length (concat cs)"
  by (cases cs) auto

lemma collect_rest:
  assumes "0 < expected_len acc" "expected_len acc \<le> m" "cs \<noteq> []" "[] \<notin> set cs"
    "length (buffer acc) + length (concat cs) = expected_len acc"
  shows "feed_chunks (\<lambda>a c. feed a c m) acc cs = (Inr [buffer acc @ concat cs], acc_new)"
  using assms
proof (induction cs arbitrary: acc)
  case (Cons c cs)
  show ?case
  proof (cases "cs = []")
    case True
    with Cons.prems show ?thesis by (simp add: feed_def feed_finish_def acc_new_def)
  next
    case False
    with Cons.prems(4,5) concat_pos [of cs] have "length (buffer acc) + length c < expected_len acc"
      by (simp del: length_concat length_greater_0_conv)
    with Cons.prems(1,2) have step: "feed acc c m = (Inr None, acc\<lparr>buffer := buffer acc @ c\<rparr>)"
      by (simp add: feed_def feed_finish_def)
    have "feed_chunks (\<lambda>a c. feed a c m) (acc\<lparr>buffer := buffer acc @ c\<rparr>) cs
        = (Inr [(buffer acc @ c) @ concat cs], acc_new)"
      using Cons.IH [of "acc\<lparr>buffer := buffer acc @ c\<rparr>"] Cons.prems False by simp
    with step show ?thesis by simp
  qed
qed simp

lemma collect_prefix:
  assumes "0 < expected_len acc" "expected_len acc \<le> m"
    "length (buffer acc) + length (concat cs) < expected_len acc"
  shows "feed_chunks (\<lambda>a c. feed a c m) acc cs = (Inr [], acc\<lparr>buffer := buffer acc @ concat cs\<rparr>)"
  using assms
proof (induction cs arbitrary: acc)
  case (Cons c cs)
  then have step: "feed acc c m = (Inr None, acc\<lparr>buffer := buffer acc @ c\<rparr>)"
    by (simp add: feed_def feed_finish_def)
  with Cons.IH [of "acc\<lparr>buffer := buffer acc @ c\<rparr>"] Cons.prems show ?case by simp
qed simp

text \<open>The first chunk of a frame.\<close>

lemma first_chunk_prefix:
  assumes "4 \<le> length c" "c @ rest = u32_to_le_bytes w @ p"
  shows "take 4 c = u32_to_le_bytes w" "p = drop 4 c @ rest"
proof -
  have "take 4 (c @ rest) = take 4 (u32_to_le_bytes w @ p)" by (simp only: assms(2))
  with assms(1) show "take 4 c = u32_to_le_bytes w" by simp
  have "drop 4 (c @ rest) = drop 4 (u32_to_le_bytes w @ p)" by (simp only: assms(2))
  with assms(1) show "p = drop 4 c @ rest" by simp
qed

lemma feed_first:
  assumes "length p < 2 ^ 32" "length p \<le> m" "4 \<le> length c"
    "c @ rest = u32_to_le_bytes (of_nat (length p)) @ p"
  shows "feed acc_new c m = feed_finish \<lparr>expected_len = length p, buffer = drop 4 c\<rparr>"
proof -
  have "unat (u32_from_le_bytes (take 4 c)) = length p"
    using first_chunk_prefix(1) [OF assms(3,4)] assms(1) by (simp add: unat_of_nat take_bit_nat_eq_self)
  with assms(2,3) show ?thesis by (simp add: feed_def acc_new_def)
qed

lemma frame_split_cases:
  assumes "frame_split m p cs"
  obtains c cs' where "cs = c # cs'" "feed acc_new c m = feed_finish \<lparr>expected_len = length p, buffer = drop 4 c\<rparr>"
    "p = drop 4 c @ concat cs'" "[] \<notin> set cs'" "length p \<le> m"
proof -
  from assms obtain c cs' where cs: "cs = c # cs'" by (cases cs) (auto simp: frame_split_def)
  with assms have *: "length p < 2 ^ 32" "length p \<le> m" "4 \<le> length c"
    "c @ concat cs' = u32_to_le_bytes (of_nat (length p)) @ p" "[] \<notin> set cs'"
    by (simp_all add: frame_split_def)
  show thesis
    using that [OF cs feed_first [OF *(1-4)] first_chunk_prefix(2) [OF *(3,4)] *(5,2)] .
qed

lemma frame_split_complete:
  assumes "frame_split m p cs"
  shows "feed_chunks (\<lambda>a c. feed a c m) acc_new cs = (Inr [p], acc_new)"
  using assms
proof (cases rule: frame_split_cases)
  case (1 c cs')
  show ?thesis
  proof (cases "cs' = []")
    case True
    with 1 show ?thesis by (simp add: feed_finish_def acc_new_def)
  next
    case False
    with 1(4) have "length (concat cs') \<noteq> 0" by (cases cs') auto
    then have "length (drop 4 c) < length p"
      by (metis 1(3) length_append less_add_same_cancel1 gr0I)
    moreover from this have "feed acc_new c m = (Inr None, \<lparr>expected_len = length p, buffer = drop 4 c\<rparr>)"
      by (simp only: 1(2)) (simp add: feed_finish_def)
    moreover have "feed_chunks (\<lambda>a c. feed a c m) \<lparr>expected_len = length p, buffer = drop 4 c\<rparr> cs'
        = (Inr [drop 4 c @ concat cs'], acc_new)"
      using collect_rest [of "\<lparr>expected_len = length p, buffer = drop 4 c\<rparr>" m cs'] False 1 calculation
      by (metis (no_types, lifting) frame_accumulator.select_convs length_append gr_zeroI not_less_zero)
    ultimately show ?thesis using 1(1) by (simp flip: 1(3))
  qed
qed

lemma frame_split_early:
  assumes "frame_split m p (cs @ ds)" "ds \<noteq> []"
  shows "\<exists>s. feed_chunks (\<lambda>a c. feed a c m) acc_new cs = (Inr [], s)"
proof (cases cs)
  case (Cons c cs')
  from assms(1) show ?thesis
  proof (cases rule: frame_split_cases)
    case (1 c1 rest)
    with Cons have [simp]: "c1 = c" and rest: "rest = cs' @ ds" by auto
    have "length (concat ds) \<noteq> 0" using assms(2) 1(4) rest by (cases ds) auto
    then have len: "length (drop 4 c) + length (concat cs') < length p"
      using arg_cong [OF 1(3), of length] rest by (simp del: length_drop)
    then have "feed acc_new c m = (Inr None, \<lparr>expected_len = length p, buffer = drop 4 c\<rparr>)"
      using 1(2) by (simp add: feed_finish_def)
    moreover have "\<exists>s. feed_chunks (\<lambda>a c. feed a c m) \<lparr>expected_len = length p, buffer = drop 4 c\<rparr> cs' = (Inr [], s)"
      using len 1(5) collect_prefix [of "\<lparr>expected_len = length p, buffer = drop 4 c\<rparr>" m cs'] by (cases p) auto
    ultimately show ?thesis using Cons by auto
  qed
qed simp

interpretation acc: reassembler "\<lambda>a c. feed a c m" acc_new "frame_split m" for m
  by unfold_locales (fact frame_split_complete, fact frame_split_early)

text \<open>Cutting an encoded frame at a fixed chunk size of at least four gives such a split.\<close>

lemma frame_split_chunks:
  assumes "encode_frame pc f = Inr bs" "to_stdvec pc f = Inr p" "length p < 2 ^ 32" "length p \<le> m" "4 \<le> n"
  shows "frame_split m p (chunks n bs)"
proof -
  have bs: "bs = u32_to_le_bytes (of_nat (length p)) @ p"
    using assms(1,2) by (simp add: encode_frame_eq_Inr)
  then have "bs \<noteq> []" and "4 \<le> length bs" by (auto simp: u32_to_le_bytes_def)
  with assms(5) have split: "chunks n bs = take n bs # chunks n (drop n bs)" and "4 \<le> length (take n bs)"
    by (simp_all add: hd_chunks)
  moreover have "[] \<notin> set (chunks n (drop n bs))" using chunks_elem by blast
  moreover have "concat (chunks n bs) = bs" using assms(5) by (simp add: concat_chunks)
  ultimately show ?thesis using assms(3,4) bs by (simp add: frame_split_def)
qed

section \<open>A concrete codec for the witnesses\<close>

fun sample_kind_byte :: "frame_kind \<Rightarrow> byte" where
  "sample_kind_byte Message = 0"
| "sample_kind_byte Event = 1"
| "sample_kind_byte Ping = 2"
| "sample_kind_byte Pong = 3"

definition sample_byte_kind :: "byte \<Rightarrow> frame_kind" where
  "sample_byte_kind b = (if b = 0 then Message else if b = 1 then Event else if b = 2 then Ping else Pong)"

definition sample_postcard :: postcard where
  "sample_postcard = \<lparr>
     to_stdvec = (\<lambda>f. Inr (u32_to_le_bytes (f_id f) @ sample_kind_byte (f_kind f) # f_data f)),
     from_bytes = (\<lambda>bs. if length bs < 5 then Inl []
       else Inr \<lparr>f_id = u32_from_le_bytes (take 4 bs), f_kind = sample_byte_kind (bs ! 4), f_data = drop 5 bs\<rparr>)\<rparr>"

lemma sample_kind_roundtrip [simp]: "sample_byte_kind (sample_kind_byte k) = k"
  by (cases k) (simp_all add: sample_byte_kind_def)

lemma sample_to_stdvec [simp]:
  "to_stdvec sample_postcard f = Inr (u32_to_le_bytes (f_id f) @ sample_kind_byte (f_kind f) # f_data f)"
  by (simp add: sample_postcard_def)

lemma sample_from_bytes [simp]:
  "from_bytes sample_postcard (u32_to_le_bytes i @ sample_kind_byte k # d) =
     Inr \<lparr>f_id = i, f_kind = k, f_data = d\<rparr>"
  by (simp add: sample_postcard_def nth_append)

lemma sample_postcard_ok: "postcard_ok sample_postcard"
  by (simp add: postcard_ok_def)

section \<open>Properties\<close>

text \<open>A frame the receiver's limit and the 32-bit prefix admit.\<close>

definition frame_fits :: "postcard \<Rightarrow> nat \<Rightarrow> frame \<Rightarrow> bool" where
  "frame_fits pc m f \<longleftrightarrow> (\<exists>p. to_stdvec pc f = Inr p \<and> length p < 2 ^ 32 \<and> length p \<le> m)"

lemma frame_fits_split:
  assumes "frame_fits pc m f" "postcard_ok pc" "4 \<le> n"
  obtains bs p where "encode_frame pc f = Inr bs" "frame_split m p (chunks n bs)" "decode_frame pc p = Inr f"
proof -
  from assms(1) obtain p where p: "to_stdvec pc f = Inr p" "length p < 2 ^ 32" "length p \<le> m"
    by (auto simp: frame_fits_def)
  then obtain bs where bs: "encode_frame pc f = Inr bs" by (simp add: encode_frame_def)
  from that [OF bs frame_split_chunks [OF bs p assms(3)] decode_encoded_payload [OF assms(2) p(1)]] show thesis .
qed

text \<open>
  C6. Any sequence of frames within the limits survives the trip: encoded, cut into chunks of
  any size from four bytes up and fed to one accumulator chunk by chunk, it comes out frame by
  frame, complete, in order and equal to what was sent, and the accumulator ends idle.
\<close>

theorem frame_stream_roundtrip:
  assumes "postcard_ok pc" "4 \<le> n" "\<forall>f \<in> set fs. frame_fits pc m f"
  shows "\<exists>bss ps. map (encode_frame pc) fs = map Inr bss \<and>
    feed_chunks (\<lambda>a c. feed a c m) acc_new (concat (map (chunks n) bss)) = (Inr ps, acc_new) \<and>
    map (decode_frame pc) ps = map Inr fs"
proof -
  have "\<exists>bss ps. map (encode_frame pc) fs = map Inr bss \<and>
      list_all2 (frame_split m) ps (map (chunks n) bss) \<and> map (decode_frame pc) ps = map Inr fs"
    using assms(3)
  proof (induction fs)
    case Nil
    then show ?case by simp
  next
    case (Cons f fs)
    then obtain bss ps where IH: "map (encode_frame pc) fs = map Inr bss"
      "list_all2 (frame_split m) ps (map (chunks n) bss)" "map (decode_frame pc) ps = map Inr fs" by auto
    from Cons.prems have "frame_fits pc m f" by simp
    from this assms(1,2) obtain bs p where "encode_frame pc f = Inr bs"
      "frame_split m p (chunks n bs)" "decode_frame pc p = Inr f" by (rule frame_fits_split)
    with IH show ?case by (intro exI [of _ "bs # bss"] exI [of _ "p # ps"]) simp
  qed
  then show ?thesis using acc.stream by blast
qed

theorem frame_stream_roundtrip_witness:
  "\<exists>bss ps.
    map (encode_frame sample_postcard) [\<lparr>f_id = 2, f_kind = Message, f_data = replicate 10 0xBB\<rparr>] = map Inr bss \<and>
    feed_chunks (\<lambda>a c. feed a c 1024) acc_new (concat (map (chunks 6) bss)) = (Inr ps, acc_new) \<and>
    map (decode_frame sample_postcard) ps = map Inr [\<lparr>f_id = 2, f_kind = Message, f_data = replicate 10 0xBB\<rparr>]"
  by (rule frame_stream_roundtrip [OF sample_postcard_ok]) (simp_all add: frame_fits_def)

text \<open>
  C32. The accumulator is bounded: from any state a successful call leaves it idle with an empty
  buffer or holding a proper prefix of a frame no longer than the limit, and what it hands out
  is never longer than the limit.
\<close>

theorem feed_keeps_bounds:
  assumes "acc_wf m acc" "feed acc chunk m = (Inr r, acc')"
  shows "acc_wf m acc' \<and> (case r of None \<Rightarrow> True | Some bs \<Rightarrow> length bs \<le> m)"
  using assms by (auto intro: feed_wf feed_output_bound split: option.split)

theorem feed_keeps_bounds_witness:
  "acc_wf 100 (snd (feed acc_new [5, 0, 0, 0, 7] 100))"
proof -
  have "feed acc_new [5, 0, 0, 0, 7] 100 = (Inr None, \<lparr>expected_len = 5, buffer = [7]\<rparr>)"
    by (simp add: feed_def feed_finish_def acc_new_def u32_from_le_bytes_def)
  from feed_keeps_bounds [OF acc_wf_new this] this show ?thesis by simp
qed

text \<open>
  C25. A frame that declares more than the limit is rejected for good: after the error no later
  call on that accumulator hands out any bytes, whatever it is fed and whatever errors the
  calls in between return.
\<close>

theorem oversize_never_delivered:
  assumes "expected_len acc = 0" "4 \<le> length chunk" "m < unat (u32_from_le_bytes (take 4 chunk))"
  shows "fst (feed acc chunk m) = Inl (PayloadTooLarge m) \<and>
    length (feed_every m (snd (feed acc chunk m)) cs) = length cs \<and>
    (\<forall>r \<in> set (feed_every m (snd (feed acc chunk m)) cs). \<forall>bs. r \<noteq> Inr (Some bs))"
proof -
  from assms have first: "feed acc chunk m = (Inl (PayloadTooLarge m), acc\<lparr>expected_len := unat (u32_from_le_bytes (take 4 chunk))\<rparr>)"
    by (simp add: feed_def)
  from assms(3) have "acc_poisoned m (snd (feed acc chunk m))" by (simp add: first acc_poisoned_def)
  with first feed_every_poisoned length_feed_every show ?thesis by auto
qed

theorem oversize_never_delivered_witness:
  "fst (feed acc_new [0x88, 0x13, 0, 0, 0, 0] 1000) = Inl (PayloadTooLarge 1000) \<and>
   Inr (Some [9]) \<notin> set (feed_every 1000 (snd (feed acc_new [0x88, 0x13, 0, 0, 0, 0] 1000)) [[1, 0, 0, 0, 9], [1, 0, 0, 0, 9]])"
  using oversize_never_delivered [of acc_new "[0x88, 0x13, 0, 0, 0, 0]" 1000 "[[1, 0, 0, 0, 9], [1, 0, 0, 0, 9]]"]
  by (auto simp: acc_new_def u32_from_le_bytes_def simp del: feed_every.simps)

text \<open>
  The length prefix is the payload's length modulo \<open>2 ^ 32\<close>: the \<open>as u32\<close> cast keeps the
  length exactly when it is below \<open>2 ^ 32\<close> and silently declares a shorter frame otherwise.
\<close>

theorem encode_frame_prefix:
  assumes "to_stdvec pc f = Inr p" "encode_frame pc f = Inr bs"
  shows "drop 4 bs = p \<and> unat (u32_from_le_bytes (take 4 bs)) = length p mod 2 ^ 32 \<and>
    (unat (u32_from_le_bytes (take 4 bs)) = length p \<longleftrightarrow> length p < 2 ^ 32)"
proof -
  have "(length p mod 2 ^ 32 = length p) = (length p < 2 ^ 32)"
    by (metis mod_less mod_less_divisor zero_less_numeral zero_less_power)
  with assms show ?thesis by (auto simp: encode_frame_eq_Inr unat_of_nat take_bit_eq_mod)
qed

theorem encode_frame_prefix_witness:
  "unat (u32_from_le_bytes (take 4 (u32_to_le_bytes 7 @ u32_to_le_bytes 0 @ [2, 1, 1]))) = length (u32_to_le_bytes 0 @ [2 :: byte, 1, 1]) mod 2 ^ 32"
  using encode_frame_prefix [of sample_postcard "\<lparr>f_id = 0, f_kind = Ping, f_data = [1, 1]\<rparr>"
      "u32_to_le_bytes 0 @ [2, 1, 1]" "u32_to_le_bytes 7 @ u32_to_le_bytes 0 @ [2, 1, 1]"]
  by (simp add: encode_frame_def)

end
