(* ===== verification/Scheduler.thy ===== *)
theory Scheduler
  imports Prelude "HOL-Library.Multiset"
begin

text \<open>
  \<open>src/scheduler.rs\<close>: the four priorities and the credit-based weighted fair queue.
  The two arrays of the struct are lists of length four (\<open>wfq_wf\<close>), read and written by
  index as the code does, and the two \<open>for\<close> loops of \<open>pop\<close> are recursions over the index.
\<close>

section \<open>Priorities\<close>

datatype message_priority = RealTime | Normal | Stream | Bulk

text \<open>The discriminants, as \<open>priority as usize\<close> reads them.\<close>

fun prio_index :: "message_priority \<Rightarrow> nat" where
  "prio_index RealTime = 0"
| "prio_index Normal = 1"
| "prio_index Stream = 2"
| "prio_index Bulk = 3"

definition prio_count :: nat where
  "prio_count = 4"

lemma prio_index_less [simp]: "prio_index p < 4"
  by (cases p) simp_all

lemma prio_index_inject: "prio_index p = prio_index q \<longleftrightarrow> p = q"
  by (cases p; cases q) simp_all

text \<open>The derived \<open>Ord\<close> compares the discriminants.\<close>

instantiation message_priority :: linorder
begin

definition less_eq_message_priority :: "message_priority \<Rightarrow> message_priority \<Rightarrow> bool" where
  "less_eq_message_priority p q \<longleftrightarrow> prio_index p \<le> prio_index q"

definition less_message_priority :: "message_priority \<Rightarrow> message_priority \<Rightarrow> bool" where
  "less_message_priority p q \<longleftrightarrow> prio_index p < prio_index q"

instance
  by standard (auto simp: less_eq_message_priority_def less_message_priority_def prio_index_inject)

end

section \<open>The scheduler\<close>

definition wfq_weights :: "nat list" where
  "wfq_weights = [8, 4, 2, 1]"

record 'a wfq =
  queues :: "'a list list"
  credits :: "nat list"

definition wfq_new :: "'a wfq" where
  "wfq_new = \<lparr>queues = replicate prio_count [], credits = wfq_weights\<rparr>"

definition enqueue :: "'a wfq \<Rightarrow> 'a \<Rightarrow> message_priority \<Rightarrow> 'a wfq" where
  "enqueue s item p = s\<lparr>queues := (queues s)[prio_index p := queues s ! prio_index p @ [item]]\<rparr>"

text \<open>
  \<open>self.queues[i].pop_front()\<close>, with the credits already updated.
\<close>

definition pop_front :: "'a wfq \<Rightarrow> nat \<Rightarrow> 'a option \<times> 'a wfq" where
  "pop_front s i =
     (case queues s ! i of
        [] \<Rightarrow> (None, s)
      | x # xs \<Rightarrow> (Some x, s\<lparr>queues := (queues s)[i := xs]\<rparr>))"

text \<open>The first loop, from index \<open>i\<close> on: \<open>None\<close> when it falls through.\<close>

function pop_budgeted :: "'a wfq \<Rightarrow> nat \<Rightarrow> ('a option \<times> 'a wfq) option" where
  "pop_budgeted s i =
     (if i < prio_count then
        if 0 < credits s ! i \<and> queues s ! i \<noteq> []
        then Some (pop_front (s\<lparr>credits := (credits s)[i := credits s ! i - 1]\<rparr>) i)
        else pop_budgeted s (Suc i)
      else None)"
  by pat_completeness auto
termination
  by (relation "measure (\<lambda>(s, i). prio_count - i)") auto

text \<open>The second loop, after the budgets were reset; \<open>saturating_sub\<close> is subtraction on \<open>nat\<close>.\<close>

function pop_reset :: "'a wfq \<Rightarrow> nat \<Rightarrow> ('a option \<times> 'a wfq) option" where
  "pop_reset s i =
     (if i < prio_count then
        if queues s ! i \<noteq> []
        then Some (pop_front (s\<lparr>credits := (credits s)[i := credits s ! i - 1]\<rparr>) i)
        else pop_reset s (Suc i)
      else None)"
  by pat_completeness auto
termination
  by (relation "measure (\<lambda>(s, i). prio_count - i)") auto

declare pop_budgeted.simps [simp del] pop_reset.simps [simp del]

definition pop :: "'a wfq \<Rightarrow> 'a option \<times> 'a wfq" where
  "pop s =
     (case pop_budgeted s 0 of
        Some r \<Rightarrow> r
      | None \<Rightarrow>
          let s1 = s\<lparr>credits := wfq_weights\<rparr> in
          (case pop_reset s1 0 of
             Some r \<Rightarrow> r
           | None \<Rightarrow> (None, s1)))"

text \<open>\<open>Iterator::next\<close> is \<open>pop\<close>.\<close>

definition wfq_next :: "'a wfq \<Rightarrow> 'a option \<times> 'a wfq" where
  "wfq_next s = pop s"

definition wfq_is_empty :: "'a wfq \<Rightarrow> bool" where
  "wfq_is_empty s = list_all (\<lambda>q. q = []) (queues s)"

definition wfq_len :: "'a wfq \<Rightarrow> nat" where
  "wfq_len s = sum_list (map length (queues s))"

section \<open>Well-formedness\<close>

definition wfq_wf :: "'a wfq \<Rightarrow> bool" where
  "wfq_wf s \<longleftrightarrow> length (queues s) = 4 \<and> length (credits s) = 4 \<and>
     (\<forall>i < 4. credits s ! i \<le> wfq_weights ! i)"

lemma wfq_wf_new [simp]: "wfq_wf wfq_new"
  by (simp add: wfq_wf_def wfq_new_def prio_count_def wfq_weights_def)

lemma enqueue_wf [simp]: "wfq_wf s \<Longrightarrow> wfq_wf (enqueue s x p)"
  by (simp add: wfq_wf_def enqueue_def)

section \<open>What one \<open>pop\<close> does\<close>

text \<open>\<open>serve\<close> is the effect of both loops once they have found index \<open>i\<close>.\<close>

definition eligible :: "'a wfq \<Rightarrow> nat \<Rightarrow> bool" where
  "eligible s i \<longleftrightarrow> 0 < credits s ! i \<and> queues s ! i \<noteq> []"

definition serve :: "'a wfq \<Rightarrow> nat \<Rightarrow> 'a wfq" where
  "serve s i = \<lparr>queues = (queues s)[i := tl (queues s ! i)], credits = (credits s)[i := credits s ! i - 1]\<rparr>"

lemma pop_front_serve:
  "queues s ! i \<noteq> [] \<Longrightarrow>
   pop_front (s\<lparr>credits := (credits s)[i := credits s ! i - Suc 0]\<rparr>) i = (Some (hd (queues s ! i)), serve s i)"
  by (cases "queues s ! i") (auto simp: pop_front_def serve_def)

lemma pop_budgeted_Some:
  "i \<le> k \<Longrightarrow> k < 4 \<Longrightarrow> eligible s k \<Longrightarrow> \<forall>j. i \<le> j \<and> j < k \<longrightarrow> \<not> eligible s j \<Longrightarrow>
   pop_budgeted s i = Some (Some (hd (queues s ! k)), serve s k)"
proof (induction s i rule: pop_budgeted.induct)
  case (1 s i)
  show ?case
  proof (cases "i = k")
    case True
    with "1.prems" show ?thesis
      by (subst pop_budgeted.simps) (simp add: prio_count_def eligible_def pop_front_serve)
  next
    case False
    with 1 show ?thesis
      by (subst pop_budgeted.simps) (force simp: prio_count_def eligible_def)
  qed
qed

lemma pop_budgeted_None:
  "\<forall>j. i \<le> j \<and> j < 4 \<longrightarrow> \<not> eligible s j \<Longrightarrow> pop_budgeted s i = None"
proof (induction s i rule: pop_budgeted.induct)
  case (1 s i)
  then show ?case
    by (subst pop_budgeted.simps) (force simp: prio_count_def eligible_def)
qed

lemma pop_reset_Some:
  "i \<le> k \<Longrightarrow> k < 4 \<Longrightarrow> queues s ! k \<noteq> [] \<Longrightarrow> \<forall>j. i \<le> j \<and> j < k \<longrightarrow> queues s ! j = [] \<Longrightarrow>
   pop_reset s i = Some (Some (hd (queues s ! k)), serve s k)"
proof (induction s i rule: pop_reset.induct)
  case (1 s i)
  show ?case
  proof (cases "i = k")
    case True
    with "1.prems" show ?thesis
      by (subst pop_reset.simps) (simp add: prio_count_def pop_front_serve)
  next
    case False
    with 1 show ?thesis
      by (subst pop_reset.simps) (force simp: prio_count_def)
  qed
qed

lemma pop_reset_None:
  "\<forall>j. i \<le> j \<and> j < 4 \<longrightarrow> queues s ! j = [] \<Longrightarrow> pop_reset s i = None"
proof (induction s i rule: pop_reset.induct)
  case (1 s i)
  then show ?case
    by (subst pop_reset.simps) (force simp: prio_count_def)
qed

lemma least_index:
  assumes "P k" "k < (n :: nat)"
  shows "\<exists>i < n. P i \<and> (\<forall>j < i. \<not> P j)"
  using assms by (metis LeastI Least_le not_less_Least order.strict_trans1)

lemma pop_cases:
  obtains (budget) i where "i < 4" "eligible s i" "\<forall>j < i. \<not> eligible s j"
      "pop s = (Some (hd (queues s ! i)), serve s i)"
  | (round) i where "i < 4" "\<forall>j < 4. \<not> eligible s j" "queues s ! i \<noteq> []" "\<forall>j < i. queues s ! j = []"
      "pop s = (Some (hd (queues s ! i)), serve (s\<lparr>credits := wfq_weights\<rparr>) i)"
  | (empty) "\<forall>j < 4. queues s ! j = []" "pop s = (None, s\<lparr>credits := wfq_weights\<rparr>)"
proof (cases "\<exists>k < 4. eligible s k")
  case True
  then obtain k where "k < 4" "eligible s k" by blast
  then obtain i where i: "i < 4" "eligible s i" "\<forall>j < i. \<not> eligible s j"
    using least_index [of "eligible s" k 4] by auto
  then have "pop_budgeted s 0 = Some (Some (hd (queues s ! i)), serve s i)"
    by (intro pop_budgeted_Some) auto
  then have "pop s = (Some (hd (queues s ! i)), serve s i)"
    by (simp add: pop_def)
  with i show ?thesis by (rule that(1))
next
  case no: False
  let ?s1 = "s\<lparr>credits := wfq_weights\<rparr>"
  from no have fallthrough: "pop_budgeted s 0 = None" by (intro pop_budgeted_None) auto
  show ?thesis
  proof (cases "\<exists>k < 4. queues s ! k \<noteq> []")
    case True
    then obtain k where "k < 4" "queues s ! k \<noteq> []" by blast
    then obtain i where i: "i < 4" "queues s ! i \<noteq> []" "\<forall>j < i. queues s ! j = []"
      using least_index [of "\<lambda>k. queues s ! k \<noteq> []" k 4] by auto
    have "pop_reset ?s1 0 = Some (Some (hd (queues ?s1 ! i)), serve ?s1 i)"
      by (rule pop_reset_Some) (use i in simp_all)
    with fallthrough have "pop s = (Some (hd (queues s ! i)), serve ?s1 i)"
      by (simp add: pop_def)
    from that(2) [OF i(1) _ i(2,3) this] no show ?thesis by blast
  next
    case False
    then have "pop_reset ?s1 0 = None" by (intro pop_reset_None) simp
    with fallthrough have "pop s = (None, ?s1)" by (simp add: pop_def)
    from that(3) [OF _ this] False show ?thesis by blast
  qed
qed

lemma weights_nth:
  "i < 4 \<Longrightarrow> 0 < wfq_weights ! i"
  by (auto simp: wfq_weights_def less_Suc_eq numeral_eq_Suc)

lemma nth_update_diff_le: "(xs[i := xs ! i - n]) ! j \<le> (xs ! j :: nat)"
  by (cases "i < length xs"; cases "i = j") (auto simp: list_update_beyond)

lemma serve_wf: "wfq_wf s \<Longrightarrow> wfq_wf (serve s i)"
  using le_trans [OF nth_update_diff_le] by (auto simp: wfq_wf_def serve_def)

lemma reset_wf: "wfq_wf s \<Longrightarrow> wfq_wf (s\<lparr>credits := wfq_weights\<rparr>)"
  by (simp add: wfq_wf_def wfq_weights_def)

lemma pop_wf: "wfq_wf s \<Longrightarrow> wfq_wf (snd (pop s))"
  by (cases s rule: pop_cases) (simp_all add: serve_wf reset_wf)

section \<open>The scheduler as a queue\<close>

definition wfq_items :: "'a wfq \<Rightarrow> 'a multiset" where
  "wfq_items s = mset (concat (queues s))"

definition wfq_class :: "'a wfq \<Rightarrow> message_priority \<Rightarrow> 'a list" where
  "wfq_class s p = queues s ! prio_index p"

lemma prio_of_index: "i < 4 \<Longrightarrow> \<exists>p. prio_index p = i"
  by (auto simp: less_Suc_eq numeral_eq_Suc intro: exI [of _ RealTime] exI [of _ Normal] exI [of _ Stream] exI [of _ Bulk])

lemma wfq_class_enqueue:
  "wfq_wf s \<Longrightarrow> wfq_class (enqueue s x p) = (wfq_class s)(p := wfq_class s p @ [x])"
  by (auto simp: wfq_class_def enqueue_def wfq_wf_def fun_eq_iff nth_list_update prio_index_inject)

lemma wfq_class_serve:
  "wfq_wf s \<Longrightarrow> wfq_class (serve s (prio_index p)) = (wfq_class s)(p := tl (wfq_class s p))"
  by (auto simp: wfq_class_def serve_def wfq_wf_def fun_eq_iff nth_list_update prio_index_inject)

lemma mset_concat_update:
  "i < length qs \<Longrightarrow> mset (concat (qs[i := ys])) + mset (qs ! i) = mset (concat qs) + mset ys"
  by (induction qs arbitrary: i) (auto split: nat.splits simp: ac_simps)

lemma wfq_items_enqueue: "wfq_wf s \<Longrightarrow> wfq_items (enqueue s x p) = add_mset x (wfq_items s)"
  using mset_concat_update [of "prio_index p" "queues s" "queues s ! prio_index p @ [x]"]
  by (simp add: wfq_items_def enqueue_def wfq_wf_def)

lemma wfq_items_serve:
  assumes "wfq_wf s" "i < 4" "queues s ! i \<noteq> []"
  shows "wfq_items s = add_mset (hd (queues s ! i)) (wfq_items (serve s i))"
  using assms mset_concat_update [of i "queues s" "tl (queues s ! i)"]
  by (cases "queues s ! i") (auto simp: wfq_items_def serve_def wfq_wf_def)

lemma wfq_len_items: "wfq_len s = size (wfq_items s)"
  by (simp add: wfq_len_def wfq_items_def length_concat)

lemma wfq_all_empty: "wfq_wf s \<Longrightarrow> \<forall>j < 4. queues s ! j = [] \<Longrightarrow> wfq_items s = {#}"
  by (auto simp: wfq_items_def wfq_wf_def in_set_conv_nth)

lemma wfq_class_served:
  assumes "wfq_wf s" "queues s ! prio_index p \<noteq> []"
  shows "wfq_class s p = hd (queues s ! prio_index p) # wfq_class (serve s (prio_index p)) p"
  using assms wfq_class_serve [of s p] by (simp add: wfq_class_def)

lemma pop_class:
  assumes "wfq_wf s" "pop s = (Some x, s')"
  shows "\<exists>p. wfq_class s p = x # wfq_class s' p \<and> wfq_class s' = (wfq_class s)(p := tl (wfq_class s p))"
proof (cases s rule: pop_cases)
  case (budget i)
  then obtain p where "prio_index p = i" using prio_of_index by blast
  with budget assms wfq_class_served [OF assms(1), of p] wfq_class_serve [OF assms(1), of p] show ?thesis
    by (auto simp: eligible_def)
next
  case (round i)
  let ?s1 = "s\<lparr>credits := wfq_weights\<rparr>"
  from round obtain p where p: "prio_index p = i" using prio_of_index by blast
  have "wfq_class ?s1 = wfq_class s" by (simp add: wfq_class_def fun_eq_iff)
  with p round assms wfq_class_served [OF reset_wf [OF assms(1)], of p] wfq_class_serve [OF reset_wf [OF assms(1)], of p]
  show ?thesis by auto
qed (use assms in simp)

section \<open>The queue contract the send loops rely on\<close>

text \<open>
  The loops of the client and of the server take items out of the scheduler until it has
  none left.  \<open>drain n\<close> is that loop over any queue, for at most \<open>n\<close> turns.
\<close>

fun drain :: "nat \<Rightarrow> ('q \<Rightarrow> 'a option \<times> 'q) \<Rightarrow> 'q \<Rightarrow> 'a list \<times> 'q" where
  "drain 0 nx q = ([], q)"
| "drain (Suc n) nx q =
     (case nx q of
        (None, q1) \<Rightarrow> ([], q1)
      | (Some x, q1) \<Rightarrow> (let (xs, q2) = drain n nx q1 in (x # xs, q2)))"

lemma drain_Suc_cases:
  assumes "drain (Suc n) nx q = (xs, q')"
  obtains "nx q = (None, q')" "xs = []"
  | x q1 ys where "nx q = (Some x, q1)" "drain n nx q1 = (ys, q')" "xs = x # ys"
  using assms by (auto split: prod.splits option.splits)

lemma drain_add:
  "length (fst (drain m nx q)) = m \<Longrightarrow>
   drain (m + n) nx q =
     (let (xs, q1) = drain m nx q; (ys, q2) = drain n nx q1 in (xs @ ys, q2))"
  by (induction m arbitrary: q) (auto split: prod.splits option.splits simp: Let_def)

locale prio_queue =
  fixes enq :: "'q \<Rightarrow> 'a \<Rightarrow> 'p \<Rightarrow> 'q"
    and nxt :: "'q \<Rightarrow> 'a option \<times> 'q"
    and items :: "'q \<Rightarrow> 'a multiset"
    and ok :: "'q \<Rightarrow> bool"
  assumes enq_ok: "ok q \<Longrightarrow> ok (enq q x p)"
    and nxt_ok: "ok q \<Longrightarrow> nxt q = (r, q') \<Longrightarrow> ok q'"
    and items_enq: "ok q \<Longrightarrow> items (enq q x p) = add_mset x (items q)"
    and nxt_Some: "ok q \<Longrightarrow> nxt q = (Some x, q') \<Longrightarrow> items q = add_mset x (items q')"
    and nxt_None: "ok q \<Longrightarrow> nxt q = (None, q') \<Longrightarrow> items q = {#} \<and> items q' = {#}"
begin

lemma drain_ok: "ok q \<Longrightarrow> drain n nxt q = (xs, q') \<Longrightarrow> ok q'"
  by (induction n arbitrary: q xs) (auto split: prod.splits option.splits dest: nxt_ok)

lemma drain_items: "ok q \<Longrightarrow> drain n nxt q = (xs, q') \<Longrightarrow> items q = mset xs + items q'"
proof (induction n arbitrary: q xs)
  case (Suc n)
  from Suc.prems(2) show ?case
  proof (cases rule: drain_Suc_cases)
    case 1
    with Suc.prems(1) show ?thesis by (simp add: nxt_None)
  next
    case (2 x q1 ys)
    from Suc.IH [OF nxt_ok [OF Suc.prems(1) 2(1)] 2(2)] nxt_Some [OF Suc.prems(1) 2(1)] 2(3)
    show ?thesis by simp
  qed
qed simp

lemma drain_complete:
  assumes "ok q" "size (items q) \<le> n" "drain n nxt q = (xs, q')"
  shows "mset xs = items q \<and> items q' = {#}"
  using assms
proof (induction n arbitrary: q xs)
  case (Suc n)
  from Suc.prems(3) show ?case
  proof (cases rule: drain_Suc_cases)
    case 1
    with Suc.prems(1) show ?thesis by (simp add: nxt_None)
  next
    case (2 x q1 ys)
    from nxt_Some [OF Suc.prems(1) 2(1)] have "items q = add_mset x (items q1)" .
    with Suc.IH [OF nxt_ok [OF Suc.prems(1) 2(1)] _ 2(2)] Suc.prems(2) 2(3) show ?thesis by simp
  qed
qed simp

end

locale fifo_prio_queue = prio_queue +
  fixes cls :: "'q \<Rightarrow> 'p \<Rightarrow> 'a list"
  assumes cls_enq: "ok q \<Longrightarrow> cls (enq q x p) = (cls q)(p := cls q p @ [x])"
    and cls_nxt: "ok q \<Longrightarrow> nxt q = (Some x, q') \<Longrightarrow>
      \<exists>p. cls q p = x # cls q' p \<and> cls q' = (cls q)(p := tl (cls q p))"
    and cls_none: "ok q \<Longrightarrow> nxt q = (None, q') \<Longrightarrow> cls q' = cls q"
begin

text \<open>Each item that comes out belongs to a class, and each class comes out in order.\<close>

lemma drain_fifo:
  "ok q \<Longrightarrow> drain n nxt q = (xs, q') \<Longrightarrow>
   \<exists>ps. length ps = length xs \<and>
     (\<forall>p. cls q p = map snd (filter (\<lambda>(p', x). p' = p) (zip ps xs)) @ cls q' p)"
proof (induction n arbitrary: q xs)
  case 0
  then show ?case by auto
next
  case (Suc n)
  from Suc.prems(2) show ?case
  proof (cases rule: drain_Suc_cases)
    case 1
    with cls_none [OF Suc.prems(1)] show ?thesis by simp
  next
    case (2 x q1 ys)
    note xs = 2(3)
    from Suc.IH [OF nxt_ok [OF Suc.prems(1) 2(1)] 2(2)] obtain ps where
      ps: "length ps = length ys"
        "\<And>p. cls q1 p = map snd (filter (\<lambda>(p', x). p' = p) (zip ps ys)) @ cls q' p" by blast
    from cls_nxt [OF Suc.prems(1) 2(1)] obtain p0 where
      p0: "cls q p0 = x # cls q1 p0" "cls q1 = (cls q)(p0 := tl (cls q p0))" by blast
    show ?thesis
    proof (intro exI [of _ "p0 # ps"] conjI allI)
      fix p
      show "cls q p = map snd (filter (\<lambda>(p', x). p' = p) (zip (p0 # ps) xs)) @ cls q' p"
      proof (cases "p = p0")
        case True
        with p0(1) ps(2) xs show ?thesis by simp
      next
        case False
        then have "cls q p = cls q1 p" by (simp add: p0(2))
        with False ps(2) xs show ?thesis by auto
      qed
    qed (simp add: ps(1) xs)
  qed
qed

end

lemma wfq_items_credits [simp]: "wfq_items (s\<lparr>credits := c\<rparr>) = wfq_items s"
  by (simp add: wfq_items_def)

lemma wfq_class_credits [simp]: "wfq_class (s\<lparr>credits := c\<rparr>) = wfq_class s"
  by (simp add: wfq_class_def fun_eq_iff)

lemma pop_items_Some:
  assumes "wfq_wf s" "pop s = (Some x, s')"
  shows "wfq_items s = add_mset x (wfq_items s')"
proof (cases s rule: pop_cases)
  case (budget i)
  with assms wfq_items_serve [OF assms(1), of i] show ?thesis by (simp add: eligible_def)
next
  case (round i)
  with assms wfq_items_serve [OF reset_wf [OF assms(1)], of i] show ?thesis by simp
qed (use assms in simp)

lemma pop_None:
  assumes "wfq_wf s" "pop s = (None, s')"
  shows "wfq_items s = {#} \<and> s' = s\<lparr>credits := wfq_weights\<rparr>"
  using assms by (cases s rule: pop_cases) (simp_all add: wfq_all_empty)

interpretation wfq: fifo_prio_queue enqueue wfq_next wfq_items wfq_wf wfq_class
proof (unfold_locales, unfold wfq_next_def)
  fix q :: "'a wfq" and r q'
  assume "wfq_wf q" "pop q = (r, q')"
  with pop_wf [of q] show "wfq_wf q'" by simp
qed (auto simp: wfq_items_enqueue wfq_class_enqueue pop_items_Some pop_class dest: pop_None)

section \<open>Shares of a round\<close>

text \<open>
  While a class has credits and items and no class above it does, it is served from its front.
\<close>

lemma eligible_serve:
  assumes "wfq_wf s" "i < 4" "j < 4" "j \<noteq> i"
  shows "eligible (serve s i) j \<longleftrightarrow> eligible s j"
  using assms by (simp add: eligible_def serve_def wfq_wf_def)

definition serve_many :: "'a wfq \<Rightarrow> nat \<Rightarrow> nat \<Rightarrow> 'a wfq" where
  "serve_many s i k =
     \<lparr>queues = (queues s)[i := drop k (queues s ! i)], credits = (credits s)[i := credits s ! i - k]\<rparr>"

lemma drain_class:
  assumes "wfq_wf s" "i < 4" "\<forall>j < i. \<not> eligible s j" "k \<le> credits s ! i" "k \<le> length (queues s ! i)"
  shows "drain k wfq_next s = (take k (queues s ! i), serve_many s i k)"
  using assms
proof (induction k arbitrary: s)
  case 0
  then show ?case by (simp add: serve_many_def wfq_wf_def)
next
  case (Suc k)
  then obtain x xs where q: "queues s ! i = x # xs" by (cases "queues s ! i") auto
  with Suc.prems have "eligible s i" by (simp add: eligible_def)
  with Suc.prems have "pop_budgeted s 0 = Some (Some (hd (queues s ! i)), serve s i)"
    by (intro pop_budgeted_Some) auto
  with q have step: "wfq_next s = (Some x, serve s i)"
    by (simp add: wfq_next_def pop_def)
  have "\<forall>j < i. \<not> eligible (serve s i) j"
    using Suc.prems(1-3) by (auto simp: eligible_serve)
  moreover have "queues (serve s i) ! i = xs" "credits (serve s i) ! i = credits s ! i - 1"
    using Suc.prems(1,2) q by (simp_all add: serve_def wfq_wf_def)
  ultimately have "drain k wfq_next (serve s i) = (take k xs, serve_many (serve s i) i k)"
    using Suc.IH [of "serve s i"] Suc.prems q by (simp add: serve_wf)
  moreover have "serve_many (serve s i) i k = serve_many s i (Suc k)"
    using Suc.prems(1,2) q by (simp add: serve_many_def serve_def wfq_wf_def)
  ultimately show ?case using step q by simp
qed

lemma drain_then:
  "drain m nx q = (xs, q1) \<Longrightarrow> length xs = m \<Longrightarrow> drain n nx q1 = (ys, q2) \<Longrightarrow>
   drain (m + n) nx q = (xs @ ys, q2)"
  by (simp add: drain_add)

text \<open>
  Taking items class by class: \<open>8 + 4 + 2 + 1\<close> from full budgets.
\<close>

definition round_out :: "'a list list \<Rightarrow> 'a list" where
  "round_out qs = take 8 (qs ! 0) @ take 4 (qs ! 1) @ take 2 (qs ! 2) @ take 1 (qs ! 3)"

definition round_rest :: "'a list list \<Rightarrow> 'a list list" where
  "round_rest qs = [drop 8 (qs ! 0), drop 4 (qs ! 1), drop 2 (qs ! 2), drop 1 (qs ! 3)]"

definition saturated :: "nat \<Rightarrow> 'a list list \<Rightarrow> bool" where
  "saturated n qs \<longleftrightarrow> length qs = 4 \<and> (\<forall>i < 4. n * wfq_weights ! i \<le> length (qs ! i))"

lemma length4E:
  assumes "length qs = 4"
  obtains a b c d where "qs = [a, b, c, d]"
  using assms by (auto simp: length_Suc_conv eval_nat_numeral)

lemma drain_round_full:
  assumes "saturated 1 qs"
  shows "drain 15 wfq_next \<lparr>queues = qs, credits = wfq_weights\<rparr> =
     (round_out qs, \<lparr>queues = round_rest qs, credits = [0, 0, 0, 0]\<rparr>)"
proof -
  from assms have "length qs = 4" by (simp add: saturated_def)
  then obtain a b c d where qs: "qs = [a, b, c, d]" by (rule length4E)
  from assms have len: "8 \<le> length a" "4 \<le> length b" "2 \<le> length c" "1 \<le> length d"
    by (auto simp: saturated_def qs wfq_weights_def All_less_Suc eval_nat_numeral)
  have wf: "wfq_wf \<lparr>queues = [w, x, y, z], credits = [e, f, g, h]\<rparr>"
    if "e \<le> 8" "f \<le> 4" "g \<le> 2" "h \<le> 1" for w x y z :: "'a list" and e f g h
    using that by (auto simp: wfq_wf_def wfq_weights_def All_less_Suc eval_nat_numeral)
  have 1: "drain 8 wfq_next \<lparr>queues = [a, b, c, d], credits = [8, 4, 2, 1]\<rparr> =
      (take 8 a, \<lparr>queues = [drop 8 a, b, c, d], credits = [0, 4, 2, 1]\<rparr>)"
    using drain_class [of "\<lparr>queues = [a, b, c, d], credits = [8, 4, 2, 1]\<rparr>" 0 8] wf len
    by (simp add: serve_many_def)
  have 2: "drain 4 wfq_next \<lparr>queues = [drop 8 a, b, c, d], credits = [0, 4, 2, 1]\<rparr> =
      (take 4 b, \<lparr>queues = [drop 8 a, drop 4 b, c, d], credits = [0, 0, 2, 1]\<rparr>)"
    using drain_class [of "\<lparr>queues = [drop 8 a, b, c, d], credits = [0, 4, 2, 1]\<rparr>" 1 4] wf len
    by (simp add: serve_many_def eligible_def)
  have 3: "drain 2 wfq_next \<lparr>queues = [drop 8 a, drop 4 b, c, d], credits = [0, 0, 2, 1]\<rparr> =
      (take 2 c, \<lparr>queues = [drop 8 a, drop 4 b, drop 2 c, d], credits = [0, 0, 0, 1]\<rparr>)"
    using drain_class [of "\<lparr>queues = [drop 8 a, drop 4 b, c, d], credits = [0, 0, 2, 1]\<rparr>" 2 2] wf len
    by (simp add: serve_many_def eligible_def All_less_Suc eval_nat_numeral)
  have 4: "drain 1 wfq_next \<lparr>queues = [drop 8 a, drop 4 b, drop 2 c, d], credits = [0, 0, 0, 1]\<rparr> =
      (take 1 d, \<lparr>queues = [drop 8 a, drop 4 b, drop 2 c, drop 1 d], credits = [0, 0, 0, 0]\<rparr>)"
    using drain_class [of "\<lparr>queues = [drop 8 a, drop 4 b, drop 2 c, d], credits = [0, 0, 0, 1]\<rparr>" 3 1] wf len
    by (simp add: serve_many_def eligible_def All_less_Suc eval_nat_numeral)
  have "drain (8 + (4 + (2 + 1))) wfq_next \<lparr>queues = [a, b, c, d], credits = [8, 4, 2, 1]\<rparr> =
      (take 8 a @ take 4 b @ take 2 c @ take 1 d,
       \<lparr>queues = [drop 8 a, drop 4 b, drop 2 c, drop 1 d], credits = [0, 0, 0, 0]\<rparr>)"
    by (rule drain_then [OF 1 _ drain_then [OF 2 _ drain_then [OF 3 _ 4]]]) (use len in auto)
  then show ?thesis by (simp add: qs wfq_weights_def round_out_def round_rest_def)
qed

lemma pop_exhausted: "pop \<lparr>queues = qs, credits = [0, 0, 0, 0]\<rparr> = pop \<lparr>queues = qs, credits = wfq_weights\<rparr>"
proof -
  let ?s = "\<lparr>queues = qs, credits = wfq_weights\<rparr>"
  have "pop_budgeted ?s i = pop_reset ?s i" for i
  proof (induction "4 - i" arbitrary: i)
    case 0
    then show ?case by (subst pop_budgeted.simps, subst pop_reset.simps) (simp add: prio_count_def)
  next
    case (Suc n)
    then have "pop_budgeted ?s (Suc i) = pop_reset ?s (Suc i)" by simp
    moreover from Suc have "0 < wfq_weights ! i" by (intro weights_nth) simp
    ultimately show ?case by (subst pop_budgeted.simps, subst pop_reset.simps) simp
  qed
  moreover have "pop_budgeted \<lparr>queues = qs, credits = [0, 0, 0, 0]\<rparr> 0 = None"
    by (rule pop_budgeted_None) (auto simp: eligible_def less_Suc_eq eval_nat_numeral)
  ultimately show ?thesis by (simp add: pop_def split: option.splits)
qed

lemma drain_exhausted:
  "drain (Suc n) wfq_next \<lparr>queues = qs, credits = [0, 0, 0, 0]\<rparr> =
   drain (Suc n) wfq_next \<lparr>queues = qs, credits = wfq_weights\<rparr>"
  by (simp add: wfq_next_def pop_exhausted)

fun rounds_out :: "nat \<Rightarrow> 'a list list \<Rightarrow> 'a list" where
  "rounds_out 0 qs = []"
| "rounds_out (Suc n) qs = round_out qs @ rounds_out n (round_rest qs)"

lemma saturated_Suc:
  assumes "saturated (Suc n) qs"
  shows "saturated 1 qs" "saturated n (round_rest qs)" "length (round_out qs) = 15"
  using assms
  by (auto simp: saturated_def round_rest_def round_out_def wfq_weights_def All_less_Suc eval_nat_numeral min_def)

lemma drain_rounds:
  assumes "saturated n qs" "c = wfq_weights \<or> c = [0, 0, 0, 0]"
  shows "\<exists>c'. drain (15 * n) wfq_next \<lparr>queues = qs, credits = c\<rparr> =
     (rounds_out n qs, \<lparr>queues = [drop (8 * n) (qs ! 0), drop (4 * n) (qs ! 1), drop (2 * n) (qs ! 2), drop n (qs ! 3)],
        credits = c'\<rparr>)"
  using assms
proof (induction n arbitrary: qs c)
  case 0
  then have "length qs = 4" by (simp add: saturated_def)
  then obtain w x y z where "qs = [w, x, y, z]" by (rule length4E)
  then show ?case by simp
next
  case (Suc n)
  note sat = saturated_Suc [OF Suc.prems(1)]
  have first: "drain 15 wfq_next \<lparr>queues = qs, credits = c\<rparr> =
      (round_out qs, \<lparr>queues = round_rest qs, credits = [0, 0, 0, 0]\<rparr>)"
    using Suc.prems(2) drain_round_full [OF sat(1)] drain_exhausted [of 14 qs] by auto
  from Suc.IH [OF sat(2), of "[0, 0, 0, 0]"] obtain c' where
    rest: "drain (15 * n) wfq_next \<lparr>queues = round_rest qs, credits = [0, 0, 0, 0]\<rparr> =
      (rounds_out n (round_rest qs),
       \<lparr>queues = [drop (8 * n) (round_rest qs ! 0), drop (4 * n) (round_rest qs ! 1),
          drop (2 * n) (round_rest qs ! 2), drop n (round_rest qs ! 3)], credits = c'\<rparr>)" by blast
  have drops: "drop (8 * n) (round_rest qs ! 0) = drop (8 * Suc n) (qs ! 0)"
    "drop (4 * n) (round_rest qs ! 1) = drop (4 * Suc n) (qs ! 1)"
    "drop (2 * n) (round_rest qs ! 2) = drop (2 * Suc n) (qs ! 2)"
    "drop n (round_rest qs ! 3) = drop (Suc n) (qs ! 3)"
    by (simp_all add: round_rest_def add.commute)
  have "15 * Suc n = 15 + 15 * n" by simp
  with drain_then [OF first sat(3) rest] show ?case
    by (simp only: drops rounds_out.simps) blast
qed

section \<open>No starvation\<close>

text \<open>A client's calls on the scheduler.\<close>

datatype 'a wfq_op = Enq 'a message_priority | Deq

fun wfq_run :: "'a wfq \<Rightarrow> 'a wfq_op list \<Rightarrow> 'a option list \<times> 'a wfq" where
  "wfq_run s [] = ([], s)"
| "wfq_run s (Enq x p # ops) = wfq_run (enqueue s x p) ops"
| "wfq_run s (Deq # ops) =
     (let (r, s1) = wfq_next s; (rs, s2) = wfq_run s1 ops in (r # rs, s2))"

fun deq_count :: "'a wfq_op list \<Rightarrow> nat" where
  "deq_count [] = 0"
| "deq_count (Enq x p # ops) = deq_count ops"
| "deq_count (Deq # ops) = Suc (deq_count ops)"

text \<open>
  How many items of other classes can still come out before class \<open>i\<close> is served: the
  credits of the classes above it when it has credits itself; otherwise every other class
  may first use up its credits, and after the reset the classes above it their budgets.
\<close>

definition wait_budget :: "'a wfq \<Rightarrow> nat \<Rightarrow> nat" where
  "wait_budget s i =
     (if 0 < credits s ! i then (\<Sum>j<i. credits s ! j)
      else (\<Sum>j\<in>{..<4} - {i}. credits s ! j) + (\<Sum>j<i. wfq_weights ! j))"

lemma wait_budget_enqueue [simp]: "wait_budget (enqueue s x p) i = wait_budget s i"
  by (simp add: wait_budget_def enqueue_def)

lemma sum_serve:
  assumes "wfq_wf s" "finite A" "k \<in> A" "k < 4" "0 < credits s ! k"
  shows "Suc (\<Sum>j\<in>A. credits (serve s k) ! j) = (\<Sum>j\<in>A. credits s ! j)"
proof -
  have eq: "credits (serve s k) ! j = (if j = k then credits s ! k - 1 else credits s ! j)" for j
    using assms(1,4) by (simp add: serve_def wfq_wf_def)
  have "(\<Sum>j\<in>A. credits (serve s k) ! j) = credits s ! k - 1 + (\<Sum>j\<in>A - {k}. credits s ! j)"
    using assms(2,3) by (subst sum.remove [of A k]) (auto simp: eq intro!: sum.cong)
  moreover have "(\<Sum>j\<in>A. credits s ! j) = credits s ! k + (\<Sum>j\<in>A - {k}. credits s ! j)"
    using assms(2,3) by (rule sum.remove)
  ultimately show ?thesis using assms(5) by simp
qed

text \<open>A turn that does not serve class \<open>i\<close> shortens its wait.\<close>

lemma wait_budget_pop:
  assumes wf: "wfq_wf s" and i: "i < 4" and q: "queues s ! i = x # xs"
  shows "(\<exists>s'. wfq_next s = (Some x, s')) \<or>
    (\<exists>y s'. wfq_next s = (Some y, s') \<and> wfq_wf s' \<and> queues s' ! i = x # xs \<and> wait_budget s' i < wait_budget s i)"
proof (cases s rule: pop_cases)
  case (budget k)
  show ?thesis
  proof (cases "k = i")
    case True
    with budget q show ?thesis by (simp add: wfq_next_def)
  next
    case False
    let ?s = "serve s k"
    have keep: "queues ?s ! i = x # xs" "credits ?s ! i = credits s ! i"
      using wf i budget(1) False q by (simp_all add: serve_def wfq_wf_def)
    have pos: "0 < credits s ! k" using budget(2) by (simp add: eligible_def)
    have "wait_budget ?s i < wait_budget s i"
    proof (cases "0 < credits s ! i")
      case True
      with q have "eligible s i" by (simp add: eligible_def)
      with budget(3) False have "k < i" by (meson linorder_neqE_nat)
      with True keep sum_serve [OF wf, of "{..<i}" k] budget(1) pos show ?thesis
        by (simp add: wait_budget_def)
    next
      case no: False
      with keep sum_serve [OF wf, of "{..<4} - {i}" k] budget(1) pos False show ?thesis
        by (simp add: wait_budget_def)
    qed
    with keep budget(4) wf show ?thesis by (auto simp: wfq_next_def serve_wf)
  qed
next
  case (round k)
  let ?s1 = "s\<lparr>credits := wfq_weights\<rparr>"
  show ?thesis
  proof (cases "k = i")
    case True
    with round q show ?thesis by (simp add: wfq_next_def)
  next
    case False
    with round(4) q have "k < i" by (metis linorder_neqE_nat list.discI)
    let ?s = "serve ?s1 k"
    have keep: "queues ?s ! i = x # xs" "credits ?s ! i = wfq_weights ! i"
      using wf i round(1) False q by (simp_all add: serve_def wfq_wf_def)
    have "credits s ! i = 0" using round(2) i q by (auto simp: eligible_def)
    then have "(\<Sum>j<i. wfq_weights ! j) \<le> wait_budget s i" by (simp add: wait_budget_def)
    moreover have "wait_budget ?s i < (\<Sum>j<i. wfq_weights ! j)"
      using sum_serve [OF reset_wf [OF wf], of "{..<i}" k] \<open>k < i\<close> round(1) i weights_nth
      by (simp add: wait_budget_def keep)
    ultimately have "wait_budget ?s i < wait_budget s i" by simp
    with keep round(5) wf show ?thesis by (auto simp: wfq_next_def serve_wf reset_wf)
  qed
next
  case empty
  with i q show ?thesis by auto
qed

lemma served_within_wait:
  assumes "wfq_wf s" "i < 4" "queues s ! i = x # xs" "wait_budget s i < deq_count ops"
  shows "Some x \<in> set (fst (wfq_run s ops))"
  using assms
proof (induction ops arbitrary: s xs)
  case (Cons op ops)
  show ?case
  proof (cases op)
    case (Enq y p)
    have "\<exists>ys. queues (enqueue s y p) ! i = x # ys"
      using Cons.prems(1-3) by (auto simp: enqueue_def wfq_wf_def nth_list_update)
    then obtain ys where "queues (enqueue s y p) ! i = x # ys" ..
    with Cons Enq show ?thesis by simp
  next
    case Deq
    from wait_budget_pop [OF Cons.prems(1-3)] show ?thesis
    proof (elim disjE exE conjE)
      fix s' assume "wfq_next s = (Some x, s')"
      with Deq show ?thesis by (simp split: prod.splits)
    next
      fix y s' assume "wfq_next s = (Some y, s')" "wfq_wf s'" "queues s' ! i = x # xs"
        "wait_budget s' i < wait_budget s i"
      with Cons.IH [of s' xs] Cons.prems(2,4) Deq show ?thesis by (auto split: prod.splits)
    qed
  qed
qed simp

text \<open>The wait is never longer than the budgets allow: 7, 19, 25 and 28 turns.\<close>

lemma wait_budget_bound:
  assumes "wfq_wf s"
  shows "wait_budget s (prio_index p) \<le> (case p of RealTime \<Rightarrow> 7 | Normal \<Rightarrow> 19 | Stream \<Rightarrow> 25 | Bulk \<Rightarrow> 28)"
proof -
  from assms have c: "credits s ! 0 \<le> 8" "credits s ! 1 \<le> 4" "credits s ! 2 \<le> 2" "credits s ! 3 \<le> 1"
    by (auto simp: wfq_wf_def wfq_weights_def All_less_Suc eval_nat_numeral)
  have set4: "{..<4} - {0} = {1, 2, 3 :: nat}" "{..<4} - {Suc 0} = {0, 2, 3 :: nat}"
    "{..<4} - {2} = {0, 1, 3 :: nat}" "{..<4} - {3} = {0, 1, 2 :: nat}" by auto
  have less: "{..<2} = {0, 1 :: nat}" "{..<3} = {0, 1, 2 :: nat}" by auto
  show ?thesis
    using c by (cases p) (auto simp: wait_budget_def set4 less wfq_weights_def)
qed

section \<open>Properties\<close>

lemma deq_count_replicate [simp]: "deq_count (replicate n Deq) = n"
  by (induction n) simp_all

lemma wfq_is_empty_items: "wfq_is_empty s \<longleftrightarrow> wfq_items s = {#}"
  by (auto simp: wfq_is_empty_def wfq_items_def list_all_iff)

text \<open>
  C12. No priority is starved: whatever is enqueued meanwhile, the item at the front of a
  class comes out after at most 7 (RealTime), 19 (Normal), 25 (Stream) or 28 (Bulk) items of
  other classes.
\<close>

theorem wfq_no_starvation:
  assumes "wfq_wf s" "wfq_class s p = x # xs"
    and "(case p of RealTime \<Rightarrow> 7 | Normal \<Rightarrow> 19 | Stream \<Rightarrow> 25 | Bulk \<Rightarrow> 28) < deq_count ops"
  shows "Some x \<in> set (fst (wfq_run s ops))"
  using assms served_within_wait [OF assms(1), of "prio_index p" x xs ops] wait_budget_bound [OF assms(1), of p]
  by (simp add: wfq_class_def)

theorem wfq_no_starvation_witness:
  "Some (7::nat) \<in> set (fst (wfq_run (enqueue wfq_new 7 Bulk) (replicate 29 Deq)))"
  using wfq_no_starvation [of "enqueue wfq_new (7::nat) Bulk" Bulk 7 "[]" "replicate 29 Deq"]
  by (simp add: wfq_class_def enqueue_def wfq_new_def prio_count_def wfq_wf_def wfq_weights_def
      All_less_Suc eval_nat_numeral)

text \<open>
  C30. On a saturated connection every round of fifteen items carries 8 RealTime, 4 Normal,
  2 Stream and 1 Bulk item, in this order, for as many rounds as the queues last.
\<close>

theorem wfq_round_shares:
  assumes "saturated n qs"
  shows "fst (drain (15 * n) wfq_next \<lparr>queues = qs, credits = wfq_weights\<rparr>) = rounds_out n qs \<and>
    queues (snd (drain (15 * n) wfq_next \<lparr>queues = qs, credits = wfq_weights\<rparr>)) =
      [drop (8 * n) (qs ! 0), drop (4 * n) (qs ! 1), drop (2 * n) (qs ! 2), drop n (qs ! 3)]"
  using drain_rounds [OF assms, of wfq_weights] by auto

theorem wfq_round_shares_witness:
  "fst (drain 15 wfq_next
      \<lparr>queues = [replicate 9 (0::nat), replicate 9 1, replicate 9 2, replicate 9 3], credits = wfq_weights\<rparr>) =
    replicate 8 0 @ replicate 4 1 @ replicate 2 2 @ replicate 1 3"
proof -
  have "saturated 1 [replicate 9 (0::nat), replicate 9 1, replicate 9 2, replicate 9 3]"
    by (simp add: saturated_def wfq_weights_def All_less_Suc eval_nat_numeral)
  from wfq_round_shares [OF this] show ?thesis
    by (simp add: round_out_def)
qed

text \<open>
  C31. Within one priority the order of arrival is kept: whatever number of items is taken,
  they can be assigned to priorities so that each priority's queue was the items taken from
  it, in the order they came out, followed by what is left.
\<close>

theorem wfq_fifo:
  assumes "wfq_wf s" "drain n wfq_next s = (xs, s')"
  shows "\<exists>ps. length ps = length xs \<and>
    (\<forall>p. wfq_class s p = map snd (filter (\<lambda>(p', x). p' = p) (zip ps xs)) @ wfq_class s' p)"
  using assms by (rule wfq.drain_fifo)

theorem wfq_fifo_witness:
  "\<exists>ps. length ps = length [1, 2 :: nat] \<and>
    (\<forall>p. wfq_class (enqueue (enqueue (wfq_new :: nat wfq) 1 Normal) 2 Normal) p =
       map snd (filter (\<lambda>(p', x). p' = p) (zip ps [1, 2 :: nat])) @ wfq_class (wfq_new :: nat wfq) p)"
proof -
  let ?s = "enqueue (enqueue (wfq_new :: nat wfq) 1 Normal) 2 Normal"
  obtain s' where run: "drain 2 wfq_next ?s = ([1, 2], s')" and cls: "wfq_class s' = wfq_class (wfq_new :: nat wfq)"
  proof
    show "drain 2 wfq_next ?s = ([1, 2], \<lparr>queues = [[], [], [], []], credits = [8, 2, 2, 1]\<rparr>)"
      by code_simp
    show "wfq_class \<lparr>queues = [[], [], [], []], credits = [8, 2, 2, 1]\<rparr> = wfq_class (wfq_new :: nat wfq)"
      by (simp add: wfq_class_def wfq_new_def prio_count_def numeral_eq_Suc fun_eq_iff)
  qed
  from wfq_fifo [OF _ run] show ?thesis by (simp add: cls)
qed

text \<open>
  Nothing is lost or made up: draining the scheduler, as both send loops do, gives
  exactly the items it held, each once, and leaves it empty.
\<close>

theorem wfq_drain_complete:
  assumes "wfq_wf s" "wfq_len s \<le> n" "drain n wfq_next s = (xs, s')"
  shows "mset xs = wfq_items s \<and> wfq_is_empty s'"
  using assms wfq.drain_complete [of s n xs s'] by (simp add: wfq_len_items wfq_is_empty_items)

theorem wfq_drain_complete_witness:
  "mset [7, 1, 2, 3 :: nat] =
    wfq_items (enqueue (enqueue (enqueue (enqueue wfq_new 3 Bulk) 1 Normal) 7 RealTime) 2 Stream)"
proof -
  let ?s = "enqueue (enqueue (enqueue (enqueue (wfq_new :: nat wfq) 3 Bulk) 1 Normal) 7 RealTime) 2 Stream"
  have run: "drain 4 wfq_next ?s = ([7, 1, 2, 3], \<lparr>queues = [[], [], [], []], credits = [7, 3, 1, 0]\<rparr>)"
    by code_simp
  have len: "wfq_len ?s \<le> 4" by code_simp
  show ?thesis using wfq_drain_complete [OF _ len run] by simp
qed

end
