(* ===== verification/Float64.thy ===== *)
theory Float64
  imports Complex_Main Prelude "HOL-Library.Log_Nat"
begin

text \<open>
  The part of Rust's \<open>Duration\<close> and \<open>f64\<close> the backoff strategies use.

  A \<open>Duration\<close> is its number of nanoseconds, at most \<open>duration_max\<close> (\<open>u64::MAX\<close> seconds and
  999999999 nanoseconds); its derived order is the order of these numbers.  \<open>None\<close> is a panic.

  A \<open>f64\<close> is a rational or one of the non-finite values.  Every operation rounds the exact
  result to 53 bits, ties to even, with gradual underflow, and overflows to an infinity, as
  IEEE 754 prescribes.  The two zeros are not told apart: no operation used here does.
\<close>

section \<open>Durations\<close>

type_synonym duration = nat

definition nanos_per_sec :: nat where
  "nanos_per_sec = 10 ^ 9"

definition duration_max :: duration where
  "duration_max = (2 ^ 64 - 1) * nanos_per_sec + (nanos_per_sec - 1)"

definition from_secs :: "nat \<Rightarrow> duration" where
  "from_secs s = s * nanos_per_sec"

lemma from_secs_0 [simp]: "from_secs 0 = 0"
  by (simp add: from_secs_def)

lemma from_secs_le_iff [simp]: "from_secs a \<le> from_secs b \<longleftrightarrow> a \<le> b"
  by (simp add: from_secs_def nanos_per_sec_def)

text \<open>\<open>Duration + Duration\<close> and \<open>Duration * u32\<close> panic on overflow.\<close>

definition duration_add :: "duration \<Rightarrow> duration \<Rightarrow> duration option" where
  "duration_add a b = (if a + b \<le> duration_max then Some (a + b) else None)"

definition duration_mul :: "duration \<Rightarrow> nat \<Rightarrow> duration option" where
  "duration_mul a k = (if a * k \<le> duration_max then Some (a * k) else None)"

section \<open>Floating point\<close>

datatype f64 = Fin rat | PInf | NInf | NaN

text \<open>\<open>2 ^ e\<close> for an integer exponent, and the binary logarithm of a positive rational, rounded down.\<close>

definition pow2 :: "int \<Rightarrow> rat" where
  "pow2 e = (if 0 \<le> e then 2 ^ nat e else 1 / 2 ^ nat (- e))"

definition ilog2 :: "rat \<Rightarrow> int" where
  "ilog2 a = (if 1 \<le> a then int (floorlog 2 (nat \<lfloor>a\<rfloor>)) - 1
              else - (if \<lceil>1 / a\<rceil> \<le> 1 then 0 else int (floorlog 2 (nat (\<lceil>1 / a\<rceil> - 1)))))"

definition round_half_even :: "rat \<Rightarrow> int" where
  "round_half_even a =
     (let n = \<lfloor>a\<rfloor>; r = a - of_int n in
      if r < 1 / 2 then n else if 1 / 2 < r then n + 1 else if even n then n else n + 1)"

text \<open>Rounding a non-negative rational to the nearest double, and the sign back on.\<close>

definition round_mag :: "rat \<Rightarrow> rat" where
  "round_mag a =
     (if a = 0 then 0
      else let e = max (ilog2 a - 52) (- 1074) in of_int (round_half_even (a / pow2 e)) * pow2 e)"

definition round_f64 :: "rat \<Rightarrow> f64" where
  "round_f64 q =
     (let m = round_mag (abs q) in
      if 2 ^ 1024 \<le> m then (if 0 < q then PInf else NInf)
      else Fin (if q < 0 then - m else m))"

fun f64_neg :: "f64 \<Rightarrow> f64" where
  "f64_neg (Fin q) = Fin (- q)"
| "f64_neg PInf = NInf"
| "f64_neg NInf = PInf"
| "f64_neg NaN = NaN"

fun f64_scale_inf :: "rat \<Rightarrow> f64" where
  "f64_scale_inf q = (if q = 0 then NaN else if 0 < q then PInf else NInf)"

fun f64_mul :: "f64 \<Rightarrow> f64 \<Rightarrow> f64" where
  "f64_mul (Fin a) (Fin b) = round_f64 (a * b)"
| "f64_mul NaN y = NaN"
| "f64_mul x NaN = NaN"
| "f64_mul (Fin a) PInf = f64_scale_inf a"
| "f64_mul (Fin a) NInf = f64_neg (f64_scale_inf a)"
| "f64_mul PInf (Fin b) = f64_scale_inf b"
| "f64_mul NInf (Fin b) = f64_neg (f64_scale_inf b)"
| "f64_mul PInf PInf = PInf"
| "f64_mul NInf NInf = PInf"
| "f64_mul PInf NInf = NInf"
| "f64_mul NInf PInf = NInf"

fun f64_add_nonneg :: "f64 \<Rightarrow> f64 \<Rightarrow> f64" where
  "f64_add_nonneg (Fin a) (Fin b) = round_f64 (a + b)"
| "f64_add_nonneg x y = NaN"

text \<open>\<open>1.0 / x\<close>, with the quotient by a zero the positive infinity.\<close>

fun f64_recip :: "f64 \<Rightarrow> f64" where
  "f64_recip (Fin a) = (if a = 0 then PInf else round_f64 (1 / a))"
| "f64_recip PInf = Fin 0"
| "f64_recip NInf = Fin 0"
| "f64_recip NaN = NaN"

text \<open>
  \<open>f64::powi\<close> is the compiler's integer power; its runtime routine squares and multiplies,
  and inverts at the end for a negative exponent.  Rust leaves the rounding of \<open>powi\<close> open;
  the results used below are exact under any of the permitted sequences of multiplications.
\<close>

function f64_powi_loop :: "f64 \<Rightarrow> f64 \<Rightarrow> nat \<Rightarrow> f64" where
  "f64_powi_loop r a b =
     (let r1 = (if odd b then f64_mul r a else r) in
      if b div 2 = 0 then r1 else f64_powi_loop r1 (f64_mul a a) (b div 2))"
  by pat_completeness auto
termination
  by (relation "measure (\<lambda>(r, a, b). b)") auto

declare f64_powi_loop.simps [simp del]

definition f64_powi :: "f64 \<Rightarrow> int \<Rightarrow> f64" where
  "f64_powi a n =
     (let r = f64_powi_loop (Fin 1) a (nat (abs n)) in
      if n < 0 then f64_recip r else r)"

section \<open>Durations as seconds\<close>

text \<open>\<open>as_secs_f64\<close>: the seconds plus the nanoseconds over \<open>1e9\<close>, each step rounded.\<close>

definition as_secs_f64 :: "duration \<Rightarrow> f64" where
  "as_secs_f64 d =
     f64_add_nonneg (round_f64 (of_nat (d div nanos_per_sec)))
       (round_f64 (of_nat (d mod nanos_per_sec) / of_nat nanos_per_sec))"

text \<open>
  \<open>from_secs_f64\<close> rounds to the nearest nanosecond, ties to even, and panics for a negative
  or non-finite argument and for one that does not fit.
\<close>

fun from_secs_f64 :: "f64 \<Rightarrow> duration option" where
  "from_secs_f64 (Fin q) =
     (if q < 0 then None
      else let n = nat (round_half_even (q * of_nat nanos_per_sec)) in
        if n \<le> duration_max then Some n else None)"
| "from_secs_f64 PInf = None"
| "from_secs_f64 NInf = None"
| "from_secs_f64 NaN = None"

section \<open>Powers of two are exact\<close>

lemma round_half_even_of_int [simp]: "round_half_even (of_int n) = n"
  by (simp add: round_half_even_def)

lemma round_half_even_of_nat [simp]: "round_half_even (of_nat n) = int n"
  using round_half_even_of_int [of "int n"] by simp

lemma pow2_nonneg: "pow2 (int k) = 2 ^ k"
  by (simp add: pow2_def)

lemma ilog2_pow: "ilog2 (2 ^ k) = int k"
proof -
  have "floorlog 2 (2 ^ k) = k + 1" by (simp add: floorlog_def floor_log_nat_eq_if)
  then show ?thesis by (simp add: ilog2_def nat_power_eq)
qed

lemma round_mag_pow: "round_mag (2 ^ k) = 2 ^ k"
proof (cases "52 \<le> k")
  case True
  then have e: "max (ilog2 (2 ^ k) - 52) (- 1074) = int (k - 52)" by (simp add: ilog2_pow)
  have "(2 ^ k :: rat) = 2 ^ 52 * 2 ^ (k - 52)" using True by (metis le_add_diff_inverse power_add)
  then have "(2 ^ k :: rat) / 2 ^ (k - 52) = of_int (2 ^ 52)" by simp
  then have "round_half_even ((2 ^ k :: rat) / 2 ^ (k - 52)) = 2 ^ 52" by (simp only: round_half_even_of_int)
  moreover have "round_mag (2 ^ k) = of_int (round_half_even (2 ^ k / 2 ^ (k - 52))) * 2 ^ (k - 52)"
    by (simp add: round_mag_def Let_def e [unfolded max_def] e pow2_nonneg)
  ultimately show ?thesis using \<open>(2 ^ k :: rat) = 2 ^ 52 * 2 ^ (k - 52)\<close> by simp
next
  case False
  then have e: "max (ilog2 (2 ^ k) - 52) (- 1074) = int k - 52" by (simp add: ilog2_pow)
  from False have p: "pow2 (int k - 52) = 1 / 2 ^ (52 - k)"
    by (simp add: pow2_def nat_diff_distrib)
  have "(2 ^ k :: rat) / (1 / 2 ^ (52 - k)) = of_int (2 ^ 52)"
    using False by (simp flip: power_add)
  then have r: "round_half_even ((2 ^ k :: rat) / (1 / 2 ^ (52 - k))) = 2 ^ 52" by (simp only: round_half_even_of_int)
  have "(2 ^ 52 :: rat) * (1 / 2 ^ (52 - k)) = 2 ^ k"
    using False by (simp add: field_simps flip: power_add)
  with r show ?thesis by (simp add: round_mag_def e p)
qed

text \<open>The double nearest to a power of two: the power itself, or infinity from \<open>2 ^ 1024\<close> on.\<close>

definition pw :: "nat \<Rightarrow> f64" where
  "pw k = (if k < 1024 then Fin (2 ^ k) else PInf)"

lemma round_f64_pow: "round_f64 (2 ^ k) = pw k"
proof -
  have "(2 ^ 1024 \<le> (2 ^ k :: rat)) = (1024 \<le> k)" by (rule power_increasing_iff) simp
  then show ?thesis by (simp add: round_f64_def round_mag_pow pw_def Let_def)
qed

lemma f64_mul_pw: "f64_mul (pw i) (pw j) = pw (i + j)"
  using round_f64_pow [of "i + j"] by (simp add: pw_def power_add)

lemma f64_powi_loop_pw: "f64_powi_loop (pw i) (pw j) b = pw (i + j * b)"
proof (induction b arbitrary: i j rule: less_induct)
  case (less b)
  have r1: "(if odd b then f64_mul (pw i) (pw j) else pw i) = pw (i + j * (b mod 2))"
    by (simp add: f64_mul_pw mod_2_eq_odd)
  show ?case
  proof (cases "b div 2 = 0")
    case True
    then have "b mod 2 = b" by simp
    with True r1 show ?thesis by (subst f64_powi_loop.simps) (simp add: Let_def)
  next
    case False
    have "f64_powi_loop (pw (i + j * (b mod 2))) (pw (j + j)) (b div 2) = pw (i + j * (b mod 2) + (j + j) * (b div 2))"
      using False by (intro less.IH) simp
    also have "i + j * (b mod 2) + (j + j) * (b div 2) = i + j * (b mod 2 + 2 * (b div 2))"
      by (simp only: distrib_left distrib_right mult_2 mult_2_right add.assoc)
    also have "b mod 2 + 2 * (b div 2) = b" by simp
    finally show ?thesis
      using False r1 by (subst f64_powi_loop.simps) (simp only: Let_def if_False f64_mul_pw)
  qed
qed

lemma f64_powi_2: "f64_powi (Fin 2) (int n) = pw n"
  using f64_powi_loop_pw [of 0 1 n] by (simp add: f64_powi_def pw_def)

lemma as_secs_f64_pow: "k < 64 \<Longrightarrow> as_secs_f64 (from_secs (2 ^ k)) = pw k"
proof -
  have "round_f64 (of_nat (2 ^ k)) = pw k" by (simp add: round_f64_pow)
  moreover assume "k < 64"
  moreover have "round_f64 0 = Fin 0" by (simp add: round_f64_def round_mag_def Let_def)
  ultimately show ?thesis
    using round_f64_pow [of k] by (simp add: as_secs_f64_def from_secs_def nanos_per_sec_def pw_def)
qed

lemma from_secs_f64_pw: "from_secs_f64 (pw k) = (if k < 64 then Some (from_secs (2 ^ k)) else None)"
proof -
  have "(2 ^ k :: rat) * of_nat nanos_per_sec = of_nat (2 ^ k * nanos_per_sec)" by simp
  then have r: "nat (round_half_even ((2 ^ k :: rat) * of_nat nanos_per_sec)) = from_secs (2 ^ k)"
    by (simp only: round_half_even_of_nat nat_int from_secs_def)
  have "from_secs (2 ^ k) \<le> duration_max \<longleftrightarrow> k < 64"
  proof
    assume "k < 64"
    then have "(2::nat) ^ k \<le> 2 ^ 63" by (intro power_increasing) auto
    then show "from_secs (2 ^ k) \<le> duration_max"
      by (simp add: from_secs_def nanos_per_sec_def duration_max_def)
  next
    assume le: "from_secs (2 ^ k) \<le> duration_max"
    show "k < 64"
    proof (rule ccontr)
      assume "\<not> k < 64"
      then have "(2::nat) ^ 64 \<le> 2 ^ k" by (intro power_increasing) auto
      with le show False by (simp add: from_secs_def nanos_per_sec_def duration_max_def)
    qed
  qed
  with r show ?thesis by (auto simp: pw_def Let_def)
qed

end
