(* ===== verification/Backoff.thy ===== *)
theory Backoff
  imports Float64
begin

text \<open>
  \<open>src/ws/client/backoff.rs\<close>: the strategy trait and its three implementations.  A strategy
  is its \<open>next_delay\<close> method; \<open>None\<close> is a panic.
\<close>

section \<open>The strategies\<close>

type_synonym backoff = "u32 \<Rightarrow> duration option"

record constant_backoff =
  cb_delay :: duration

definition constant_backoff_new :: "duration \<Rightarrow> constant_backoff" where
  "constant_backoff_new delay = \<lparr>cb_delay = delay\<rparr>"

definition constant_next_delay :: "constant_backoff \<Rightarrow> backoff" where
  "constant_next_delay b attempt = Some (cb_delay b)"

record linear_backoff =
  lb_initial_delay :: duration
  lb_step :: duration
  lb_max_delay :: duration

definition linear_backoff_new :: "duration \<Rightarrow> duration \<Rightarrow> duration \<Rightarrow> linear_backoff" where
  "linear_backoff_new initial_delay step max_delay =
     \<lparr>lb_initial_delay = initial_delay, lb_step = step, lb_max_delay = max_delay\<rparr>"

definition linear_next_delay :: "linear_backoff \<Rightarrow> backoff" where
  "linear_next_delay b attempt =
     (if attempt = 0 then Some (from_secs 0)
      else Option.bind (duration_mul (lb_step b) (unat (attempt - 1))) (\<lambda>extra.
           Option.bind (duration_add (lb_initial_delay b) extra) (\<lambda>delay.
           Some (min delay (lb_max_delay b)))))"

record exponential_backoff =
  eb_initial_delay :: duration
  eb_multiplier :: f64
  eb_max_delay :: duration

definition exponential_backoff_new :: "duration \<Rightarrow> f64 \<Rightarrow> duration \<Rightarrow> exponential_backoff" where
  "exponential_backoff_new initial_delay multiplier max_delay =
     \<lparr>eb_initial_delay = initial_delay, eb_multiplier = multiplier, eb_max_delay = max_delay\<rparr>"

text \<open>\<open>(attempt - 1) as i32\<close> keeps the bits, so it reads them as two's complement.\<close>

definition exponential_next_delay :: "exponential_backoff \<Rightarrow> backoff" where
  "exponential_next_delay b attempt =
     (if attempt = 0 then Some (from_secs 0)
      else let factor = f64_powi (eb_multiplier b) (sint (attempt - 1));
               secs = f64_mul (as_secs_f64 (eb_initial_delay b)) factor in
           Option.bind (from_secs_f64 secs) (\<lambda>delay. Some (min delay (eb_max_delay b))))"

section \<open>The contract of a strategy\<close>

text \<open>
  What the connection loop may rely on: a delay, when there is one, is at most a cap.  A
  strategy for retries also connects at once the first time and never waits less later.
\<close>

locale backoff_strategy =
  fixes next_delay :: "u32 \<Rightarrow> duration option"
    and cap :: duration
  assumes capped: "next_delay n = Some d \<Longrightarrow> d \<le> cap"
begin

lemma total_wait:
  "list_all2 (\<lambda>n d. next_delay n = Some d) ns ds \<Longrightarrow> sum_list ds \<le> length ns * cap"
  by (induction rule: list_all2_induct) (auto dest: capped intro: add_mono)

end

locale retry_backoff = backoff_strategy +
  assumes immediate: "next_delay 0 = Some 0"
    and growing: "next_delay a = Some d \<Longrightarrow> next_delay b = Some e \<Longrightarrow> a \<le> b \<Longrightarrow> d \<le> e"
begin

lemma schedule_sorted:
  "list_all2 (\<lambda>n d. next_delay n = Some d) ns ds \<Longrightarrow> sorted ns \<Longrightarrow> sorted ds"
proof (induction rule: list_all2_induct)
  case (Cons n ns d ds)
  have "\<forall>e \<in> set ds. d \<le> e"
  proof
    fix e assume "e \<in> set ds"
    then obtain i where i: "i < length ds" "ds ! i = e" by (auto simp: in_set_conv_nth)
    with Cons.hyps(2) have "i < length ns" "next_delay (ns ! i) = Some e"
      by (auto simp: list_all2_conv_all_nth)
    moreover from this Cons.prems have "n \<le> ns ! i" by simp
    ultimately show "d \<le> e" using growing [OF Cons.hyps(1)] by blast
  qed
  with Cons show ?case by simp
qed simp

end

interpretation const_backoff: backoff_strategy "constant_next_delay b" "cb_delay b" for b
  by unfold_locales (simp add: constant_next_delay_def)

lemma linear_Some:
  "linear_next_delay b n = Some d \<longleftrightarrow>
     (if n = 0 then d = 0
      else lb_initial_delay b + lb_step b * unat (n - 1) \<le> duration_max \<and>
        d = min (lb_initial_delay b + lb_step b * unat (n - 1)) (lb_max_delay b))"
  by (auto simp: linear_next_delay_def duration_mul_def duration_add_def split: if_splits Option.bind_splits)

interpretation lin_backoff: retry_backoff "linear_next_delay b" "lb_max_delay b" for b
proof unfold_locales
  fix a d c e
  assume d: "linear_next_delay b a = Some d" and e: "linear_next_delay b c = Some e" and "a \<le> c"
  show "d \<le> e"
  proof (cases "a = 0")
    case False
    then have "1 \<le> unat a" by (simp add: Suc_le_eq unat_gt_0)
    with \<open>a \<le> c\<close> have "c \<noteq> 0" "a - 1 \<le> c - 1"
      by (auto simp: word_le_nat_alt unat_sub_if')
    then have "lb_step b * unat (a - 1) \<le> lb_step b * unat (c - 1)" by (simp add: word_le_nat_alt)
    with d e False \<open>c \<noteq> 0\<close> show ?thesis
      by (auto simp: linear_Some intro!: min.mono add_left_mono intro: min.coboundedI1)
  qed (use d in \<open>simp add: linear_Some\<close>)
qed (auto simp: linear_Some split: if_splits)

interpretation exp_backoff: backoff_strategy "exponential_next_delay b" "eb_max_delay b" for b
  by unfold_locales
    (auto simp: exponential_next_delay_def Let_def split: if_splits Option.bind_splits)

section \<open>Doubling delays\<close>

lemma sint_small: "m < 2 ^ 31 \<Longrightarrow> sint (of_nat m :: u32) = int m"
  by (simp add: signed_of_nat signed_take_bit_int_eq_self)

text \<open>The attempt counter as a word, and what the strategies compute from it.\<close>

lemma attempt_word:
  assumes "0 < n" "n < 2 ^ 32"
  shows "(of_nat n :: u32) \<noteq> 0" "unat ((of_nat n :: u32) - 1) = n - 1"
    "n \<le> 2 ^ 31 \<Longrightarrow> sint ((of_nat n :: u32) - 1) = int (n - 1)"
proof -
  from assms obtain k where n: "n = Suc k" by (cases n) auto
  with assms have "unat (of_nat n :: u32) = Suc k"
    by (simp add: unat_of_nat take_bit_nat_eq_self del: of_nat_Suc)
  then show "(of_nat n :: u32) \<noteq> 0" by (metis unat_0 Zero_not_Suc)
  have minus: "(of_nat n :: u32) - 1 = of_nat k" by (simp add: n)
  from assms n show "unat ((of_nat n :: u32) - 1) = n - 1"
    by (simp add: minus unat_of_nat take_bit_nat_eq_self)
  assume "n \<le> 2 ^ 31"
  with n show "sint ((of_nat n :: u32) - 1) = int (n - 1)" by (simp add: minus sint_small)
qed

lemma exponential_doubling:
  assumes "j < 64" "0 < n" "n \<le> 2 ^ 31"
  shows "exponential_next_delay \<lparr>eb_initial_delay = from_secs (2 ^ j), eb_multiplier = Fin 2, eb_max_delay = m\<rparr> (of_nat n) =
    (if j + (n - 1) < 64 then Some (min (from_secs (2 ^ (j + (n - 1)))) m) else None)"
proof -
  from assms have s: "sint ((of_nat n :: u32) - 1) = int (n - 1)" by (intro attempt_word(3)) simp_all
  have "f64_mul (as_secs_f64 (from_secs (2 ^ j))) (f64_powi (Fin 2) (sint ((of_nat n :: u32) - 1))) = pw (j + (n - 1))"
    by (simp only: as_secs_f64_pow [OF assms(1)] s f64_powi_2 f64_mul_pw)
  then show ?thesis
    using attempt_word(1) [of n] assms(2,3) from_secs_f64_pw [of "j + (n - 1)"]
    by (simp add: exponential_next_delay_def Let_def)
qed

section \<open>Properties\<close>

text \<open>
  The exponential strategy with multiplier 2 doubles the delay from a power of two of
  seconds up to the cap, for as long as the uncapped delay fits a \<open>Duration\<close>; from the attempt
  where it reaches \<open>2 ^ 64\<close> seconds on, computing the delay panics instead of giving the cap.
\<close>

theorem exponential_backoff_doubles_then_panics:
  assumes "j < 64" "0 < n" "n \<le> 2 ^ 31"
  shows "exponential_next_delay \<lparr>eb_initial_delay = from_secs (2 ^ j), eb_multiplier = Fin 2, eb_max_delay = m\<rparr> (of_nat n) =
    (if j + (n - 1) < 64 then Some (min (from_secs (2 ^ (j + (n - 1)))) m) else None)"
  using assms by (rule exponential_doubling)

theorem exponential_backoff_doubles_then_panics_witness:
  "exponential_next_delay \<lparr>eb_initial_delay = from_secs 2, eb_multiplier = Fin 2, eb_max_delay = from_secs 15\<rparr> 3 = Some (from_secs 8) \<and>
   exponential_next_delay \<lparr>eb_initial_delay = from_secs 2, eb_multiplier = Fin 2, eb_max_delay = from_secs 15\<rparr> 4 = Some (from_secs 15) \<and>
   exponential_next_delay \<lparr>eb_initial_delay = from_secs 2, eb_multiplier = Fin 2, eb_max_delay = from_secs 15\<rparr> 64 = None"
  using exponential_backoff_doubles_then_panics [of 1 3 "from_secs 15"]
    exponential_backoff_doubles_then_panics [of 1 4 "from_secs 15"]
    exponential_backoff_doubles_then_panics [of 1 64 "from_secs 15"]
  by (simp add: from_secs_def nanos_per_sec_def)

text \<open>
  The linear strategy: no delay at first, then the initial delay plus one step per further
  attempt, capped; it panics exactly when the uncapped delay does not fit a \<open>Duration\<close>.
\<close>

theorem linear_backoff_schedule:
  assumes "n < 2 ^ 32"
  shows "linear_next_delay b (of_nat n) =
    (if n = 0 then Some 0
     else if lb_initial_delay b + lb_step b * (n - 1) \<le> duration_max
     then Some (min (lb_initial_delay b + lb_step b * (n - 1)) (lb_max_delay b))
     else None)"
proof (cases "n = 0")
  case False
  with assms attempt_word(1,2) [of n] show ?thesis
    by (auto simp: linear_next_delay_def duration_mul_def duration_add_def)
qed (simp add: linear_next_delay_def)

theorem linear_backoff_schedule_witness:
  "linear_next_delay \<lparr>lb_initial_delay = from_secs 2, lb_step = from_secs 3, lb_max_delay = from_secs 10\<rparr> (of_nat 3) = Some (from_secs 8) \<and>
   linear_next_delay \<lparr>lb_initial_delay = from_secs 2, lb_step = from_secs 3, lb_max_delay = from_secs 10\<rparr> (of_nat 4) = Some (from_secs 10)"
  using linear_backoff_schedule [of 3 "\<lparr>lb_initial_delay = from_secs 2, lb_step = from_secs 3, lb_max_delay = from_secs 10\<rparr>"]
    linear_backoff_schedule [of 4 "\<lparr>lb_initial_delay = from_secs 2, lb_step = from_secs 3, lb_max_delay = from_secs 10\<rparr>"]
  by (simp add: from_secs_def nanos_per_sec_def duration_max_def)

end
