(* ===== verification/Text.thy ===== *)
theory Text
  imports Prelude
begin

text \<open>
  The methods of Rust's \<open>str\<close> the handshakes and the SSE parser use, on sequences of Unicode
  scalar values, the UTF-8 encoding, and \<open>src/utils.rs\<close>, which validates the protocol strings.
\<close>

section \<open>Methods of \<open>str\<close>\<close>

fun strip_prefix :: "rstr \<Rightarrow> rstr \<Rightarrow> rstr option" where
  "strip_prefix [] s = Some s"
| "strip_prefix (p # ps) [] = None"
| "strip_prefix (p # ps) (c # cs) = (if p = c then strip_prefix ps cs else None)"

definition starts_with :: "rstr \<Rightarrow> rstr \<Rightarrow> bool" where
  "starts_with s p = (strip_prefix p s \<noteq> None)"

lemma strip_prefix_eq_Some: "strip_prefix p s = Some r \<longleftrightarrow> s = p @ r"
  by (induction p s rule: strip_prefix.induct) auto

lemma strip_prefix_append [simp]: "strip_prefix p (p @ r) = Some r"
  by (simp add: strip_prefix_eq_Some)

lemma starts_with_iff: "starts_with s p \<longleftrightarrow> (\<exists>r. s = p @ r)"
  by (auto simp: starts_with_def strip_prefix_eq_Some)

text \<open>\<open>trim_start_matches\<close> removes a non-empty prefix as often as it occurs.\<close>

function trim_start_matches :: "rstr \<Rightarrow> rstr \<Rightarrow> rstr" where
  "trim_start_matches s p =
     (if p = [] then s
      else case strip_prefix p s of None \<Rightarrow> s | Some r \<Rightarrow> trim_start_matches r p)"
  by pat_completeness auto
termination
  by (relation "measure (\<lambda>(s, p). length s)") (auto simp: strip_prefix_eq_Some)

declare trim_start_matches.simps [simp del]

fun contains :: "rstr \<Rightarrow> rstr \<Rightarrow> bool" where
  "contains s p = (starts_with s p \<or> (case s of [] \<Rightarrow> False | c # cs \<Rightarrow> contains cs p))"

declare contains.simps [simp del]

text \<open>The White_Space property of Unicode, as \<open>char::is_whitespace\<close> reads it.\<close>

definition is_whitespace :: "nat \<Rightarrow> bool" where
  "is_whitespace c \<longleftrightarrow>
     9 \<le> c \<and> c \<le> 13 \<or> c = 0x20 \<or> c = 0x85 \<or> c = 0xA0 \<or> c = 0x1680 \<or>
     0x2000 \<le> c \<and> c \<le> 0x200A \<or> c = 0x2028 \<or> c = 0x2029 \<or> c = 0x202F \<or> c = 0x205F \<or> c = 0x3000"

definition trim_end_while :: "(nat \<Rightarrow> bool) \<Rightarrow> rstr \<Rightarrow> rstr" where
  "trim_end_while P s = rev (dropWhile P (rev s))"

definition trim :: "rstr \<Rightarrow> rstr" where
  "trim s = trim_end_while is_whitespace (dropWhile is_whitespace s)"

text \<open>UTF-8.\<close>

definition utf8_char :: "nat \<Rightarrow> byte list" where
  "utf8_char c =
     (if c < 0x80 then [of_nat c]
      else if c < 0x800 then [of_nat (0xC0 + c div 64), of_nat (0x80 + c mod 64)]
      else if c < 0x10000 then
        [of_nat (0xE0 + c div 4096), of_nat (0x80 + c div 64 mod 64), of_nat (0x80 + c mod 64)]
      else
        [of_nat (0xF0 + c div 262144), of_nat (0x80 + c div 4096 mod 64), of_nat (0x80 + c div 64 mod 64),
         of_nat (0x80 + c mod 64)])"

definition utf8_bytes :: "rstr \<Rightarrow> byte list" where
  "utf8_bytes s = concat (map utf8_char s)"

section \<open>Protocol strings\<close>

definition valid_protocol_byte :: "byte \<Rightarrow> bool" where
  "valid_protocol_byte b \<longleftrightarrow>
     97 \<le> b \<and> b \<le> 122 \<or> 65 \<le> b \<and> b \<le> 90 \<or> 48 \<le> b \<and> b \<le> 57 \<or> b = 46 \<or> b = 45 \<or> b = 95"

text \<open>\<open>None\<close> is the panic.\<close>

definition validate_protocol_string :: "rstr \<Rightarrow> unit option" where
  "validate_protocol_string s =
     (if list_all valid_protocol_byte (utf8_bytes s) then Some () else None)"

section \<open>Facts about trimming\<close>

lemma trim_end_while_none: "\<forall>c \<in> set s. \<not> P c \<Longrightarrow> trim_end_while P s = s"
  by (cases s rule: rev_cases) (auto simp: trim_end_while_def)

lemma dropWhile_none: "\<forall>c \<in> set s. \<not> P c \<Longrightarrow> dropWhile P s = s"
  by (cases s) auto

lemma trim_none: "\<forall>c \<in> set s. \<not> is_whitespace c \<Longrightarrow> trim s = s"
  by (simp add: trim_def dropWhile_none trim_end_while_none)

lemma trim_start_matches_once:
  "p \<noteq> [] \<Longrightarrow> \<not> starts_with r p \<Longrightarrow> trim_start_matches (p @ r) p = r"
  by (subst trim_start_matches.simps, simp, subst trim_start_matches.simps)
    (simp add: starts_with_def)

lemma contains_iff: "contains s p \<longleftrightarrow> (\<exists>a b. s = a @ p @ b)"
proof (induction s)
  case Nil
  then show ?case by (subst contains.simps) (auto simp: starts_with_iff)
next
  case (Cons c cs)
  have "(\<exists>a b. c # cs = a @ p @ b) \<longleftrightarrow> (\<exists>r. c # cs = p @ r) \<or> (\<exists>a b. cs = a @ p @ b)"
    by (metis append_Cons append_Nil list.inject list.exhaust)
  with Cons show ?case by (subst contains.simps) (auto simp: starts_with_iff)
qed

text \<open>What a validated string consists of: in particular no blank and no other white space.\<close>

definition protocol_char :: "nat \<Rightarrow> bool" where
  "protocol_char c \<longleftrightarrow> 97 \<le> c \<and> c \<le> 122 \<or> 65 \<le> c \<and> c \<le> 90 \<or> 48 \<le> c \<and> c \<le> 57 \<or> c = 46 \<or> c = 45 \<or> c = 95"

lemma valid_protocol_byte_of_nat: "c < 0x80 \<Longrightarrow> valid_protocol_byte (of_nat c) \<longleftrightarrow> protocol_char c"
  by (simp add: valid_protocol_byte_def protocol_char_def word_le_nat_alt unat_of_nat take_bit_nat_eq_self
      word_unat_eq_iff)

lemma high_byte_invalid: "0x80 \<le> c \<Longrightarrow> c < 0x100 \<Longrightarrow> \<not> valid_protocol_byte (of_nat c)"
  by (simp add: valid_protocol_byte_def word_le_nat_alt unat_of_nat take_bit_nat_eq_self
      word_unat_eq_iff)

lemma utf8_char_valid: "c < 0x110000 \<Longrightarrow> list_all valid_protocol_byte (utf8_char c) \<longleftrightarrow> protocol_char c"
  by (auto simp: utf8_char_def valid_protocol_byte_of_nat high_byte_invalid protocol_char_def
      simp del: of_nat_add)

lemma validate_protocol_string_iff:
  assumes "\<forall>c \<in> set s. c < 0x110000"
  shows "validate_protocol_string s = Some () \<longleftrightarrow> (\<forall>c \<in> set s. protocol_char c)"
proof -
  have "list_all valid_protocol_byte (utf8_bytes s) \<longleftrightarrow> (\<forall>c \<in> set s. list_all valid_protocol_byte (utf8_char c))"
    by (simp add: utf8_bytes_def list_all_iff)
  with assms utf8_char_valid show ?thesis by (simp add: validate_protocol_string_def)
qed

lemma protocol_char_not_whitespace: "protocol_char c \<Longrightarrow> \<not> is_whitespace c"
  by (auto simp: protocol_char_def is_whitespace_def)

end
