(* ===== verification/State.thy ===== *)
theory State
  imports Backoff Text Errors
begin

text \<open>
  \<open>src/state.rs\<close>, \<open>src/auth.rs\<close> and the two configuration structs
  (\<open>src/ws/client/config.rs\<close>, \<open>src/ws/server/config.rs\<close>): the values the connection
  code publishes, the application's authentication hook, and what a user may configure.
\<close>

section \<open>Connection states\<close>

datatype connection_state =
    Disconnected
  | Connecting
  | Reconnecting (rc_attempt: u32) (rc_delay: duration)
  | Handshaking
  | Authenticating
  | WaitingForAuth
  | Online
  | Unauthorized
  | VersionMismatch (vms_client: rstr) (vms_server: rstr)
  | Error rstr

fun is_online :: "connection_state \<Rightarrow> bool" where
  "is_online Online = True"
| "is_online _ = False"

fun is_connecting :: "connection_state \<Rightarrow> bool" where
  "is_connecting Connecting = True"
| "is_connecting (Reconnecting _ _) = True"
| "is_connecting Handshaking = True"
| "is_connecting Authenticating = True"
| "is_connecting WaitingForAuth = True"
| "is_connecting _ = False"

fun is_terminal :: "connection_state \<Rightarrow> bool" where
  "is_terminal Unauthorized = True"
| "is_terminal (VersionMismatch _ _) = True"
| "is_terminal _ = False"

text \<open>The three predicates exclude each other; what they leave is idle or a transient error.\<close>

lemma connection_state_classes:
  "of_bool (is_online s) + of_bool (is_connecting s) + of_bool (is_terminal s) +
     of_bool (s = Disconnected \<or> (\<exists>e. s = Error e)) = (1 :: nat)"
  by (cases s) simp_all

section \<open>Authentication\<close>

datatype auth_outcome =
    Success
  | AuthUnauthorized
  | Failed
  | RetryWithNewPayload "byte list"

text \<open>
  The trait \<open>AuthHandler\<close>.  The application implements it, so a handler is a record of its
  three methods on a state \<open>'u\<close> of its own.
\<close>

record 'u auth_handler =
  auth_payload :: "'u \<Rightarrow> byte list option \<times> 'u"
  process_auth_response :: "'u \<Rightarrow> byte list \<Rightarrow> auth_outcome \<times> 'u"
  on_session_expired :: "'u \<Rightarrow> 'u"

definition no_auth :: "'u auth_handler" where
  "no_auth = \<lparr>auth_payload = (\<lambda>u. (None, u)),
              process_auth_response = (\<lambda>u _. (Success, u)),
              on_session_expired = (\<lambda>u. u)\<rparr>"

text \<open>\<open>impl From<AuthOutcome> for Result<(), TransportError>\<close>.\<close>

fun from_auth_outcome :: "auth_outcome \<Rightarrow> transport_error + unit" where
  "from_auth_outcome Success = Inr ()"
| "from_auth_outcome AuthUnauthorized = Inl transport_error.Unauthorized"
| "from_auth_outcome Failed = Inl AuthTimeout"
| "from_auth_outcome (RetryWithNewPayload _) = Inl AuthTimeout"

lemma from_auth_outcome_terminal:
  "from_auth_outcome r = Inl transport_error.Unauthorized \<longleftrightarrow> r = AuthUnauthorized"
  by (cases r) simp_all

section \<open>Client configuration\<close>

definition default_request_timeout :: duration where
  "default_request_timeout = from_secs 30"

definition default_auth_timeout :: duration where
  "default_auth_timeout = from_secs 15"

definition default_heartbeat_interval :: duration where
  "default_heartbeat_interval = from_secs 30"

definition default_heartbeat_timeout :: duration where
  "default_heartbeat_timeout = from_secs 10"

definition default_max_payload :: nat where
  "default_max_payload = 4 * 1024 * 1024"

definition default_buffer_size :: nat where
  "default_buffer_size = 100"

record ws_client_config =
  cc_protocol_name :: rstr
  cc_protocol_version :: rstr
  cc_heartbeat_interval :: duration
  cc_heartbeat_timeout :: duration
  cc_request_timeout :: duration
  cc_auth_timeout :: duration
  cc_max_payload_bytes :: nat
  cc_noise_server_key :: "byte list option"
  cc_backoff :: backoff
  cc_buffer_size :: nat

definition default_backoff :: exponential_backoff where
  "default_backoff = \<lparr>eb_initial_delay = from_secs 2, eb_multiplier = Fin 2, eb_max_delay = from_secs 30\<rparr>"

text \<open>\<open>WsClientConfig::new\<close>; \<open>None\<close> is the panic of the validation.\<close>

definition ws_client_config_new :: "rstr \<Rightarrow> rstr \<Rightarrow> ws_client_config option" where
  "ws_client_config_new protocol_name protocol_version =
     Option.bind (validate_protocol_string protocol_name) (\<lambda>_.
     Option.bind (validate_protocol_string protocol_version) (\<lambda>_.
     Some \<lparr>cc_protocol_name = protocol_name,
           cc_protocol_version = protocol_version,
           cc_heartbeat_interval = default_heartbeat_interval,
           cc_heartbeat_timeout = default_heartbeat_timeout,
           cc_request_timeout = default_request_timeout,
           cc_auth_timeout = default_auth_timeout,
           cc_max_payload_bytes = default_max_payload,
           cc_noise_server_key = None,
           cc_backoff = exponential_next_delay default_backoff,
           cc_buffer_size = default_buffer_size\<rparr>))"

definition with_heartbeat_interval :: "ws_client_config \<Rightarrow> duration \<Rightarrow> ws_client_config" where
  "with_heartbeat_interval c interval = c\<lparr>cc_heartbeat_interval := interval\<rparr>"

definition with_heartbeat_timeout :: "ws_client_config \<Rightarrow> duration \<Rightarrow> ws_client_config" where
  "with_heartbeat_timeout c t = c\<lparr>cc_heartbeat_timeout := t\<rparr>"

definition with_request_timeout :: "ws_client_config \<Rightarrow> duration \<Rightarrow> ws_client_config" where
  "with_request_timeout c t = c\<lparr>cc_request_timeout := t\<rparr>"

definition with_auth_timeout :: "ws_client_config \<Rightarrow> duration \<Rightarrow> ws_client_config" where
  "with_auth_timeout c t = c\<lparr>cc_auth_timeout := t\<rparr>"

definition with_max_payload_bytes :: "ws_client_config \<Rightarrow> nat \<Rightarrow> ws_client_config" where
  "with_max_payload_bytes c n = c\<lparr>cc_max_payload_bytes := n\<rparr>"

definition with_noise_server_key :: "ws_client_config \<Rightarrow> byte list \<Rightarrow> ws_client_config" where
  "with_noise_server_key c key = c\<lparr>cc_noise_server_key := Some key\<rparr>"

definition with_backoff :: "ws_client_config \<Rightarrow> backoff \<Rightarrow> ws_client_config" where
  "with_backoff c b = c\<lparr>cc_backoff := b\<rparr>"

definition with_buffer_size :: "ws_client_config \<Rightarrow> nat \<Rightarrow> ws_client_config" where
  "with_buffer_size c n = c\<lparr>cc_buffer_size := n\<rparr>"

section \<open>Server configuration\<close>

record ws_server_config =
  sc_protocol_name :: rstr
  sc_protocol_version :: rstr
  sc_noise_private_key :: "byte list"
  sc_max_payload_bytes :: nat
  sc_heartbeat_interval :: duration
  sc_heartbeat_timeout :: duration
  sc_buffer_size :: nat

definition ws_server_config_new :: "rstr \<Rightarrow> rstr \<Rightarrow> byte list \<Rightarrow> ws_server_config option" where
  "ws_server_config_new protocol_name protocol_version noise_private_key =
     Option.bind (validate_protocol_string protocol_name) (\<lambda>_.
     Option.bind (validate_protocol_string protocol_version) (\<lambda>_.
     Some \<lparr>sc_protocol_name = protocol_name,
           sc_protocol_version = protocol_version,
           sc_noise_private_key = noise_private_key,
           sc_max_payload_bytes = 4 * 1024 * 1024,
           sc_heartbeat_interval = from_secs 30,
           sc_heartbeat_timeout = from_secs 10,
           sc_buffer_size = 100\<rparr>))"

text \<open>With the feature \<open>crypto\<close> on, \<open>new_plain\<close> leaves an empty key.\<close>

definition ws_server_config_new_plain :: "rstr \<Rightarrow> rstr \<Rightarrow> ws_server_config option" where
  "ws_server_config_new_plain protocol_name protocol_version =
     Option.bind (validate_protocol_string protocol_name) (\<lambda>_.
     Option.bind (validate_protocol_string protocol_version) (\<lambda>_.
     Some \<lparr>sc_protocol_name = protocol_name,
           sc_protocol_version = protocol_version,
           sc_noise_private_key = [],
           sc_max_payload_bytes = 4 * 1024 * 1024,
           sc_heartbeat_interval = from_secs 30,
           sc_heartbeat_timeout = from_secs 10,
           sc_buffer_size = 100\<rparr>))"

section \<open>What a constructed configuration guarantees\<close>

definition valid_protocol :: "rstr \<Rightarrow> rstr \<Rightarrow> bool" where
  "valid_protocol name version \<longleftrightarrow> validate_protocol_string name = Some () \<and> validate_protocol_string version = Some ()"

lemma ws_client_config_new_valid:
  "ws_client_config_new n v = Some c \<Longrightarrow>
   cc_protocol_name c = n \<and> cc_protocol_version c = v \<and> valid_protocol n v"
  by (auto simp: ws_client_config_new_def valid_protocol_def bind_eq_Some_conv)

lemma ws_server_config_new_valid:
  "ws_server_config_new n v k = Some c \<Longrightarrow>
   sc_protocol_name c = n \<and> sc_protocol_version c = v \<and> sc_noise_private_key c = k \<and> valid_protocol n v"
  by (auto simp: ws_server_config_new_def valid_protocol_def bind_eq_Some_conv)

text \<open>The two sides agree on the frame limit unless one is changed.\<close>

lemma default_limits_agree:
  "ws_client_config_new n v = Some c \<Longrightarrow> ws_server_config_new n v k = Some s \<Longrightarrow>
   cc_max_payload_bytes c = sc_max_payload_bytes s"
  by (auto simp: ws_client_config_new_def ws_server_config_new_def bind_eq_Some_conv default_max_payload_def)

end
