(* ===== verification/Client.thy ===== *)
theory Client
  imports Transport Frame Scheduler State
begin

text \<open>
  \<open>src/ws/client/mod.rs\<close>, \<open>src/ws/client/cmd.rs\<close>: the client's shared state and its methods.

  The map of pending requests holds the sending ends of one-shot channels.  A one-shot
  channel is named by its index in \<open>cl_requests\<close>, where each request future's id and the
  state of its channel are kept: \<open>Waiting\<close> until a value is sent or the sender is dropped.
  The published connection states are kept as the list of all sent, latest last.  The
  application's event handler is a name \<open>'e\<close>; its calls are recorded.
\<close>

section \<open>State\<close>

datatype client_cmd = Send frame message_priority | EndpointChanged | Reconnect | WakeUp

datatype oneshot = Waiting | Sent "transport_error + byte list" | Dropped

record ('c, 'e) ws_client =
  cl_next_id :: u32
  cl_states :: "connection_state list"
  cl_cmd_tx :: 'c
  cl_pending :: "u32 \<rightharpoonup> nat"
  cl_event_handler :: "'e option"
  cl_url :: "rstr option"
  cl_auto_reconnect :: bool
  cl_config :: ws_client_config
  cl_cancelled :: bool
  cl_requests :: "(u32 \<times> oneshot) list"
  cl_events :: "('e \<times> byte list) list"

definition ws_client_new :: "(nat \<Rightarrow> 'c) \<Rightarrow> ws_client_config \<Rightarrow> ('c, 'e) ws_client" where
  "ws_client_new new_channel config =
     \<lparr>cl_next_id = 2, cl_states = [Disconnected], cl_cmd_tx = new_channel (cc_buffer_size config),
      cl_pending = Map.empty, cl_event_handler = None, cl_url = None, cl_auto_reconnect = True,
      cl_config = config, cl_cancelled = False, cl_requests = [], cl_events = []\<rparr>"

section \<open>Endpoint and reconnect controls\<close>

text \<open>\<open>self.cmd_tx.try_send(cmd).ok()\<close>.\<close>

definition notify :: "('c, client_cmd) mpsc_sender \<Rightarrow> client_cmd \<Rightarrow> ('c, 'e) ws_client \<Rightarrow> ('c, 'e) ws_client" where
  "notify mp cmd c = c\<lparr>cl_cmd_tx := snd (try_send mp (cl_cmd_tx c) cmd)\<rparr>"

text \<open>\<open>url::Url::parse\<close> is a parameter; the client keeps the string it was given.\<close>

definition set_endpoint :: "('c, client_cmd) mpsc_sender \<Rightarrow> (rstr \<Rightarrow> 'url option) \<Rightarrow> ('c, 'e) ws_client \<Rightarrow>
    rstr \<Rightarrow> (transport_error + unit) \<times> ('c, 'e) ws_client" where
  "set_endpoint mp parse c url_str =
     (case parse url_str of
        None \<Rightarrow> (Inl (InvalidUrl url_str), c)
      | Some _ \<Rightarrow> (Inr (), notify mp EndpointChanged (c\<lparr>cl_url := Some url_str\<rparr>)))"

definition clear_endpoint :: "('c, client_cmd) mpsc_sender \<Rightarrow> ('c, 'e) ws_client \<Rightarrow> ('c, 'e) ws_client" where
  "clear_endpoint mp c = notify mp EndpointChanged (c\<lparr>cl_url := None\<rparr>)"

definition endpoint :: "('c, 'e) ws_client \<Rightarrow> rstr option" where
  "endpoint c = cl_url c"

definition auto_reconnect :: "('c, 'e) ws_client \<Rightarrow> bool" where
  "auto_reconnect c = cl_auto_reconnect c"

definition reconnect :: "('c, client_cmd) mpsc_sender \<Rightarrow> ('c, 'e) ws_client \<Rightarrow> ('c, 'e) ws_client" where
  "reconnect mp c = notify mp Reconnect c"

definition set_auto_reconnect :: "('c, client_cmd) mpsc_sender \<Rightarrow> bool \<Rightarrow> ('c, 'e) ws_client \<Rightarrow> ('c, 'e) ws_client" where
  "set_auto_reconnect mp enabled c =
     (let c1 = c\<lparr>cl_auto_reconnect := enabled\<rparr> in if enabled then reconnect mp c1 else c1)"

definition shutdown :: "('c, 'e) ws_client \<Rightarrow> ('c, 'e) ws_client" where
  "shutdown c = c\<lparr>cl_cancelled := True\<rparr>"

definition wake :: "('c, client_cmd) mpsc_sender \<Rightarrow> ('c, 'e) ws_client \<Rightarrow> ('c, 'e) ws_client" where
  "wake mp c = notify mp WakeUp c"

definition publish :: "connection_state \<Rightarrow> ('c, 'e) ws_client \<Rightarrow> ('c, 'e) ws_client" where
  "publish st c = c\<lparr>cl_states := cl_states c @ [st]\<rparr>"

definition client_state :: "('c, 'e) ws_client \<Rightarrow> connection_state" where
  "client_state c = last (cl_states c)"

definition on_event :: "'e \<Rightarrow> ('c, 'e) ws_client \<Rightarrow> ('c, 'e) ws_client" where
  "on_event handler c = c\<lparr>cl_event_handler := Some handler\<rparr>"

section \<open>Pending requests\<close>

text \<open>Dropping the sender of a channel that still waits wakes its receiver with an error.\<close>

fun drop_sender :: "oneshot \<Rightarrow> oneshot" where
  "drop_sender Waiting = Dropped"
| "drop_sender s = s"

definition update_request :: "nat \<Rightarrow> (oneshot \<Rightarrow> oneshot) \<Rightarrow> ('c, 'e) ws_client \<Rightarrow> ('c, 'e) ws_client" where
  "update_request k g c = c\<lparr>cl_requests := (cl_requests c)[k := apsnd g (cl_requests c ! k)]\<rparr>"

definition pending_remove :: "u32 \<Rightarrow> ('c, 'e) ws_client \<Rightarrow> nat option \<times> ('c, 'e) ws_client" where
  "pending_remove rid c = (cl_pending c rid, c\<lparr>cl_pending := (cl_pending c)(rid := None)\<rparr>)"

text \<open>\<open>self.pending.remove(&id);\<close> drops what it removed.\<close>

definition pending_discard :: "u32 \<Rightarrow> ('c, 'e) ws_client \<Rightarrow> ('c, 'e) ws_client" where
  "pending_discard rid c =
     (case pending_remove rid c of (None, c1) \<Rightarrow> c1 | (Some k, c1) \<Rightarrow> update_request k drop_sender c1)"

text \<open>An insert over an entry drops the old sender.\<close>

definition pending_insert :: "u32 \<Rightarrow> nat \<Rightarrow> ('c, 'e) ws_client \<Rightarrow> ('c, 'e) ws_client" where
  "pending_insert rid k c = (let c1 = pending_discard rid c in c1\<lparr>cl_pending := (cl_pending c1)(rid \<mapsto> k)\<rparr>)"

text \<open>\<open>self.pending.retain(|_, _| false)\<close>.\<close>

definition pending_clear :: "('c, 'e) ws_client \<Rightarrow> ('c, 'e) ws_client" where
  "pending_clear c =
     c\<lparr>cl_pending := Map.empty,
       cl_requests := map (\<lambda>(k, rid, o'). (rid, if cl_pending c rid = Some k then drop_sender o' else o'))
                        (List.enumerate 0 (cl_requests c))\<rparr>"

section \<open>Requests\<close>

text \<open>
  \<open>request\<close> up to its first suspension: take an id (\<open>fetch_add\<close> wraps), register the one-shot
  channel, build the frame.  The result is the future's index.
\<close>

definition request_start :: "byte list \<Rightarrow> ('c, 'e) ws_client \<Rightarrow> (nat \<times> frame) \<times> ('c, 'e) ws_client" where
  "request_start data c =
     (let rid = cl_next_id c; k = length (cl_requests c);
          c1 = c\<lparr>cl_next_id := rid + 1, cl_requests := cl_requests c @ [(rid, Waiting)]\<rparr>;
          c2 = pending_insert rid k c1 in
      ((k, \<lparr>f_id = rid, f_kind = Message, f_data = data\<rparr>), c2))"

text \<open>The awaited send of the command; \<open>Some\<close> is the error that ends the request.\<close>

definition request_send :: "('c, client_cmd) mpsc_sender \<Rightarrow> frame \<Rightarrow> message_priority \<Rightarrow> ('c, 'e) ws_client \<Rightarrow>
    (transport_error + byte list) option \<times> ('c, 'e) ws_client" where
  "request_send mp f p c =
     (case send_wait mp (cl_cmd_tx c) (Send f p) of
        (ok, tx) \<Rightarrow> (if ok then None else Some (Inl ChannelError), c\<lparr>cl_cmd_tx := tx\<rparr>))"

text \<open>
  The await with a timeout: \<open>None\<close> while it goes on, otherwise the request's result.  A
  value that is already there wins over the timer.
\<close>

definition request_poll :: "nat \<Rightarrow> bool \<Rightarrow> ('c, 'e) ws_client \<Rightarrow>
    (transport_error + byte list) option \<times> ('c, 'e) ws_client" where
  "request_poll k elapsed c =
     (case cl_requests c ! k of
        (rid, Sent r) \<Rightarrow> (Some r, c)
      | (rid, Dropped) \<Rightarrow> (Some (Inl ChannelError), pending_discard rid c)
      | (rid, Waiting) \<Rightarrow>
          if elapsed then (Some (Inl RequestTimeout), pending_discard rid c) else (None, c))"

definition send_event :: "('c, client_cmd) mpsc_sender \<Rightarrow> byte list \<Rightarrow> message_priority \<Rightarrow> ('c, 'e) ws_client \<Rightarrow>
    (transport_error + unit) \<times> ('c, 'e) ws_client" where
  "send_event mp data priority c =
     (case try_send_cmd mp (cl_cmd_tx c) (Send \<lparr>f_id = 0, f_kind = Event, f_data = data\<rparr> priority) of
        (r, tx) \<Rightarrow> (r, c\<lparr>cl_cmd_tx := tx\<rparr>))"

section \<open>Dispatch\<close>

definition deliver_event :: "byte list \<Rightarrow> ('c, 'e) ws_client \<Rightarrow> ('c, 'e) ws_client" where
  "deliver_event data c =
     (case cl_event_handler c of
        None \<Rightarrow> c
      | Some handler \<Rightarrow> c\<lparr>cl_events := cl_events c @ [(handler, data)]\<rparr>)"

text \<open>\<open>tx.send\<close> has no effect when the receiver has gone.\<close>

fun send_oneshot :: "transport_error + byte list \<Rightarrow> oneshot \<Rightarrow> oneshot" where
  "send_oneshot r Waiting = Sent r"
| "send_oneshot r s = s"

definition dispatch_frame :: "('c, client_cmd) mpsc_sender \<Rightarrow> frame \<Rightarrow> ('c, 'e) ws_client \<Rightarrow> ('c, 'e) ws_client" where
  "dispatch_frame mp f c =
     (case f_kind f of
        Message \<Rightarrow>
          if 0 < f_id f then
            (case pending_remove (f_id f) c of
               (None, c1) \<Rightarrow> c1
             | (Some k, c1) \<Rightarrow> update_request k (send_oneshot (Inr (f_data f))) c1)
          else deliver_event (f_data f) c
      | Event \<Rightarrow> deliver_event (f_data f) c
      | Pong \<Rightarrow> c
      | Ping \<Rightarrow> notify mp (Send \<lparr>f_id = 0, f_kind = Pong, f_data = []\<rparr> RealTime) c)"

section \<open>The invariant of the pending map\<close>

text \<open>
  The map holds exactly the channels that still wait, under their own ids.  So no two
  waiting requests share an id, and no waiting request is forgotten.
\<close>

definition pending_ok :: "('c, 'e) ws_client \<Rightarrow> bool" where
  "pending_ok c \<longleftrightarrow>
     (\<forall>rid k. cl_pending c rid = Some k \<longleftrightarrow> k < length (cl_requests c) \<and> cl_requests c ! k = (rid, Waiting))"

text \<open>Under it, each operation acts on the channels of one id, whatever their index.\<close>

definition on_id :: "u32 \<Rightarrow> (oneshot \<Rightarrow> oneshot) \<Rightarrow> (u32 \<times> oneshot) list \<Rightarrow> (u32 \<times> oneshot) list" where
  "on_id rid g = map (\<lambda>(i, s). (i, if i = rid then g s else s))"

lemma length_on_id [simp]: "length (on_id rid g rs) = length rs"
  by (simp add: on_id_def)

lemma nth_on_id: "k < length rs \<Longrightarrow> on_id rid g rs ! k = (fst (rs ! k), if fst (rs ! k) = rid then g (snd (rs ! k)) else snd (rs ! k))"
  by (simp add: on_id_def split: prod.splits)

definition settles :: "(oneshot \<Rightarrow> oneshot) \<Rightarrow> bool" where
  "settles g \<longleftrightarrow> g Waiting \<noteq> Waiting \<and> (\<forall>s. s \<noteq> Waiting \<longrightarrow> g s = s)"

lemma settles_drop [simp]: "settles drop_sender"
proof -
  have "drop_sender s = s" if "s \<noteq> Waiting" for s using that by (cases s) simp_all
  then show ?thesis by (simp add: settles_def)
qed

lemma settles_send [simp]: "settles (send_oneshot r)"
proof -
  have "send_oneshot r s = s" if "s \<noteq> Waiting" for s using that by (cases s) simp_all
  then show ?thesis by (simp add: settles_def)
qed

lemma update_request_on_id:
  assumes "pending_ok c" "cl_pending c rid = Some k" "settles g"
  shows "(cl_requests c)[k := apsnd g (cl_requests c ! k)] = on_id rid g (cl_requests c)"
proof (rule nth_equalityI)
  fix j assume "j < length ((cl_requests c)[k := apsnd g (cl_requests c ! k)])"
  then have j: "j < length (cl_requests c)" by simp
  from assms(1,2) have k: "k < length (cl_requests c)" "cl_requests c ! k = (rid, Waiting)"
    by (simp_all add: pending_ok_def)
  obtain i s where r: "cl_requests c ! j = (i, s)" by fastforce
  have "s \<noteq> Waiting" if "i = rid" "j \<noteq> k"
  proof
    assume "s = Waiting"
    with that r j assms(1) have "cl_pending c rid = Some j" by (simp add: pending_ok_def)
    with assms(2) that(2) show False by simp
  qed
  with assms(3) r k j show "(cl_requests c)[k := apsnd g (cl_requests c ! k)] ! j = on_id rid g (cl_requests c) ! j"
    by (cases "j = k") (auto simp: nth_on_id settles_def)
qed simp

lemma on_id_not_pending:
  assumes "pending_ok c" "cl_pending c rid = None" "settles g"
  shows "on_id rid g (cl_requests c) = cl_requests c"
proof (rule nth_equalityI)
  fix j assume "j < length (on_id rid g (cl_requests c))"
  then have j: "j < length (cl_requests c)" by simp
  obtain i s where r: "cl_requests c ! j = (i, s)" by fastforce
  have "s \<noteq> Waiting" if "i = rid"
    using that r j assms(1,2) unfolding pending_ok_def by (metis option.distinct(1))
  with assms(3) r j show "on_id rid g (cl_requests c) ! j = cl_requests c ! j"
    by (auto simp: nth_on_id settles_def)
qed simp

lemma pending_discard_eq:
  "pending_ok c \<Longrightarrow> pending_discard rid c =
     c\<lparr>cl_pending := (cl_pending c)(rid := None), cl_requests := on_id rid drop_sender (cl_requests c)\<rparr>"
  using on_id_not_pending [of c rid drop_sender] update_request_on_id [of c rid _ drop_sender]
  by (cases "cl_pending c rid") (simp_all add: pending_discard_def pending_remove_def update_request_def)

lemma dispatch_response_eq:
  "pending_ok c \<Longrightarrow> f_kind f = Message \<Longrightarrow> 0 < f_id f \<Longrightarrow> dispatch_frame mp f c =
     c\<lparr>cl_pending := (cl_pending c)(f_id f := None),
       cl_requests := on_id (f_id f) (send_oneshot (Inr (f_data f))) (cl_requests c)\<rparr>"
  using on_id_not_pending [of c "f_id f" "send_oneshot (Inr (f_data f))"]
    update_request_on_id [of c "f_id f" _ "send_oneshot (Inr (f_data f))"]
  by (cases "cl_pending c (f_id f)") (simp_all add: dispatch_frame_def pending_remove_def update_request_def)

lemma pending_clear_eq:
  assumes "pending_ok c"
  shows "pending_clear c = c\<lparr>cl_pending := Map.empty, cl_requests := map (apsnd drop_sender) (cl_requests c)\<rparr>"
proof -
  have "map (\<lambda>(k, rid, s). (rid, if cl_pending c rid = Some k then drop_sender s else s)) (List.enumerate 0 (cl_requests c)) =
      map (apsnd drop_sender) (cl_requests c)" (is "?l = ?r")
  proof (rule nth_equalityI)
    fix k assume "k < length ?l"
    then have k: "k < length (cl_requests c)" by simp
    obtain rid s where r: "cl_requests c ! k = (rid, s)" by fastforce
    have "s \<noteq> Waiting \<longrightarrow> drop_sender s = s" using settles_drop by (simp add: settles_def)
    with assms k r have "(if cl_pending c rid = Some k then drop_sender s else s) = drop_sender s"
      by (auto simp: pending_ok_def)
    with k r show "?l ! k = ?r ! k" by (simp add: nth_enumerate_eq)
  qed simp
  then show ?thesis by (simp add: pending_clear_def)
qed

lemmas pending_effects = pending_discard_eq dispatch_response_eq pending_clear_eq

lemma pending_ok_settle:
  assumes "pending_ok c" "settles g"
  shows "pending_ok (c\<lparr>cl_pending := (cl_pending c)(rid := None), cl_requests := on_id rid g (cl_requests c)\<rparr>)"
  using assms by (auto simp: pending_ok_def nth_on_id settles_def prod_eq_iff split: if_splits) metis+

lemma pending_ok_start: "pending_ok c \<Longrightarrow> pending_ok (snd (request_start data c))"
proof -
  assume ok: "pending_ok c"
  let ?rid = "cl_next_id c" and ?k = "length (cl_requests c)"
  let ?d = "pending_discard ?rid c"
  from ok have d: "pending_ok ?d" "length (cl_requests ?d) = ?k" "cl_pending ?d ?rid = None"
    using pending_ok_settle [OF ok settles_drop] by (simp_all add: pending_discard_eq)
  have comm: "pending_discard ?rid (c\<lparr>cl_next_id := ?rid + 1, cl_requests := cl_requests c @ [(?rid, Waiting)]\<rparr>) =
      ?d\<lparr>cl_next_id := ?rid + 1, cl_requests := cl_requests ?d @ [(?rid, Waiting)]\<rparr>"
  proof (cases "cl_pending c ?rid")
    case None
    then show ?thesis by (cases c) (simp add: pending_discard_def pending_remove_def)
  next
    case (Some j)
    with ok have "j < ?k" by (simp add: pending_ok_def)
    with Some show ?thesis
      by (cases c) (simp add: pending_discard_def pending_remove_def update_request_def
          list_update_append1 nth_append)
  qed
  have "snd (request_start data c) = ?d\<lparr>cl_next_id := ?rid + 1, cl_requests := cl_requests ?d @ [(?rid, Waiting)],
      cl_pending := (cl_pending ?d)(?rid \<mapsto> ?k)\<rparr>"
    by (simp add: request_start_def pending_insert_def Let_def comm)
  with d show ?thesis
    by (auto simp: pending_ok_def nth_append less_Suc_eq) (metis option.distinct(1))+
qed

lemma notify_frame [simp]:
  "cl_pending (notify mp cmd c) = cl_pending c" "cl_requests (notify mp cmd c) = cl_requests c"
  "cl_events (notify mp cmd c) = cl_events c" "cl_states (notify mp cmd c) = cl_states c"
  "cl_url (notify mp cmd c) = cl_url c" "cl_event_handler (notify mp cmd c) = cl_event_handler c"
  by (simp_all add: notify_def)

lemma deliver_event_frame [simp]:
  "cl_pending (deliver_event d c) = cl_pending c" "cl_requests (deliver_event d c) = cl_requests c"
  by (simp_all add: deliver_event_def split: option.splits)

text \<open>Only a response touches the requests.\<close>

definition is_response :: "frame \<Rightarrow> bool" where
  "is_response f \<longleftrightarrow> f_kind f = Message \<and> 0 < f_id f"

lemma dispatch_other:
  "\<not> is_response f \<Longrightarrow> cl_pending (dispatch_frame mp f c) = cl_pending c \<and>
     cl_requests (dispatch_frame mp f c) = cl_requests c"
  by (auto simp: is_response_def dispatch_frame_def split: frame_kind.splits)

lemma pending_ok_dispatch: "pending_ok c \<Longrightarrow> pending_ok (dispatch_frame mp f c)"
proof (cases "is_response f")
  case True
  assume "pending_ok c"
  with True show ?thesis
    using pending_ok_settle [of c "send_oneshot (Inr (f_data f))" "f_id f"]
    by (simp add: is_response_def dispatch_response_eq)
next
  case False
  assume "pending_ok c"
  with dispatch_other [OF False, of mp c] show ?thesis by (simp add: pending_ok_def)
qed

lemma pending_ok_clear: "pending_ok c \<Longrightarrow> pending_ok (pending_clear c)"
proof -
  have "drop_sender s \<noteq> Waiting" for s by (cases s) simp_all
  then show "pending_ok c \<Longrightarrow> pending_ok (pending_clear c)"
    by (simp add: pending_clear_eq) (auto simp: pending_ok_def apsnd_def map_prod_def split: prod.splits)
qed

lemma pending_ok_poll: "pending_ok c \<Longrightarrow> pending_ok (snd (request_poll k elapsed c))"
  by (auto simp: request_poll_def pending_discard_eq pending_ok_settle split: prod.splits oneshot.splits)

lemma pending_ok_new: "pending_ok (ws_client_new new_channel config)"
  by (simp add: pending_ok_def ws_client_new_def)

section \<open>Histories\<close>

text \<open>
  What happens to the requests over the life of a client: calls of \<open>request\<close>, turns of the
  futures, frames dispatched by the message loop, and the clearing after a disconnect.
\<close>

datatype client_op = OpStart "byte list" | OpPoll nat bool | OpDispatch frame | OpClear

fun client_do :: "('c, client_cmd) mpsc_sender \<Rightarrow> client_op \<Rightarrow> ('c, 'e) ws_client \<Rightarrow> ('c, 'e) ws_client" where
  "client_do mp (OpStart data) c = snd (request_start data c)"
| "client_do mp (OpPoll k elapsed) c = (if k < length (cl_requests c) then snd (request_poll k elapsed c) else c)"
| "client_do mp (OpDispatch f) c = dispatch_frame mp f c"
| "client_do mp OpClear c = pending_clear c"

inductive client_reach :: "('c, client_cmd) mpsc_sender \<Rightarrow> (nat \<Rightarrow> 'c) \<Rightarrow> ws_client_config \<Rightarrow>
    client_op list \<Rightarrow> ('c, 'e) ws_client \<Rightarrow> bool" for mp new_channel config where
  new: "client_reach mp new_channel config [] (ws_client_new new_channel config)"
| op: "client_reach mp new_channel config ops c \<Longrightarrow> client_reach mp new_channel config (ops @ [op]) (client_do mp op c)"

inductive_cases client_reach_snocE: "client_reach mp new_channel config (ops @ [op]) c"

lemma client_op_ok: "pending_ok c \<Longrightarrow> pending_ok (client_do mp op c)"
  by (cases op) (simp_all add: pending_ok_start pending_ok_poll pending_ok_dispatch pending_ok_clear)

lemma client_reach_ok: "client_reach mp new_channel config ops c \<Longrightarrow> pending_ok c"
  by (induction rule: client_reach.induct) (simp_all add: pending_ok_new client_op_ok)

lemma client_reach_fold:
  "client_reach mp new_channel config ops (fold (client_do mp) ops (ws_client_new new_channel config))"
  by (induction ops rule: rev_induct) (auto intro: client_reach.intros)

text \<open>How one operation changes the requests.\<close>

lemma request_start_requests:
  "pending_ok c \<Longrightarrow> cl_requests (snd (request_start data c)) =
     on_id (cl_next_id c) drop_sender (cl_requests c) @ [(cl_next_id c, Waiting)]"
proof -
  assume ok: "pending_ok c"
  show ?thesis
  proof (cases "cl_pending c (cl_next_id c)")
    case None
    with on_id_not_pending [OF ok None settles_drop] show ?thesis
      by (simp add: request_start_def pending_insert_def pending_discard_def pending_remove_def Let_def)
  next
    case (Some j)
    with ok have "j < length (cl_requests c)" by (simp add: pending_ok_def)
    with Some update_request_on_id [OF ok Some settles_drop] show ?thesis
      by (simp add: request_start_def pending_insert_def pending_discard_def pending_remove_def Let_def
          update_request_def list_update_append1 nth_append)
  qed
qed

lemma request_start_id: "cl_next_id (snd (request_start data c)) = cl_next_id c + 1"
  by (simp add: request_start_def pending_insert_def pending_discard_def pending_remove_def update_request_def
      Let_def split: option.splits)

lemma request_poll_requests:
  "pending_ok c \<Longrightarrow> k < length (cl_requests c) \<Longrightarrow>
   cl_requests (snd (request_poll k elapsed c)) \<in>
     {cl_requests c, on_id (fst (cl_requests c ! k)) drop_sender (cl_requests c)}"
  by (auto simp: request_poll_def pending_discard_eq split: prod.splits oneshot.splits)

lemma map_apsnd_nth:
  "k < length rs \<Longrightarrow> map (apsnd g) rs ! k = (fst (rs ! k), g (snd (rs ! k)))"
  by (cases "rs ! k") simp

text \<open>
  An operation keeps every request with its id; its channel stays as it is, is dropped, or
  takes the data of a response with its id.
\<close>

lemma client_op_request:
  assumes "pending_ok c" "k < length (cl_requests c)" "cl_requests c ! k = (rid, s)"
  shows "k < length (cl_requests (client_do mp op c)) \<and>
    (cl_requests (client_do mp op c) ! k = (rid, s) \<or>
     s = Waiting \<and> cl_requests (client_do mp op c) ! k = (rid, Dropped) \<or>
     s = Waiting \<and> (\<exists>f. op = OpDispatch f \<and> is_response f \<and> f_id f = rid \<and>
        cl_requests (client_do mp op c) ! k = (rid, Sent (Inr (f_data f)))))"
proof -
  have drop_cases: "drop_sender s = s \<or> s = Waiting \<and> drop_sender s = Dropped" by (cases s) simp_all
  have on_id_drop: "on_id i drop_sender (cl_requests c) ! k \<in> {(rid, s), (rid, drop_sender s)}" for i
    using assms by (simp add: nth_on_id)
  show ?thesis
  proof (cases op)
    case (OpStart data)
    with assms(1,2) drop_cases on_id_drop [of "cl_next_id c"] show ?thesis
      by (auto simp: request_start_requests nth_append)
  next
    case (OpPoll j elapsed)
    with assms drop_cases on_id_drop [of "fst (cl_requests c ! j)"] request_poll_requests [OF assms(1), of j elapsed]
    show ?thesis by (auto split: if_splits)
  next
    case (OpDispatch f)
    show ?thesis
    proof (cases "is_response f")
      case True
      with OpDispatch assms show ?thesis
        by (cases s) (auto simp: is_response_def dispatch_response_eq nth_on_id)
    next
      case False
      with OpDispatch dispatch_other [OF False, of mp c] assms show ?thesis by simp
    qed
  next
    case OpClear
    with assms drop_cases show ?thesis by (auto simp: pending_clear_eq map_apsnd_nth)
  qed
qed

lemma client_op_length:
  "pending_ok c \<Longrightarrow> length (cl_requests c) \<le> length (cl_requests (client_do mp op c))"
proof (rule ccontr)
  assume ok: "pending_ok c" and "\<not> length (cl_requests c) \<le> length (cl_requests (client_do mp op c))"
  then have "length (cl_requests (client_do mp op c)) < length (cl_requests c)" by simp
  moreover obtain rid s where "cl_requests c ! length (cl_requests (client_do mp op c)) = (rid, s)" by fastforce
  ultimately show False using client_op_request [OF ok] by blast
qed

text \<open>Which operations add requests, and with which ids.\<close>

definition ids_ok :: "('c, 'e) ws_client \<Rightarrow> bool" where
  "ids_ok c \<longleftrightarrow> map fst (cl_requests c) = map (\<lambda>k. of_nat (k + 2)) [0..<length (cl_requests c)] \<and>
     cl_next_id c = of_nat (length (cl_requests c) + 2)"

lemma map_fst_on_id [simp]: "map fst (on_id rid g rs) = map fst rs"
  by (simp add: on_id_def case_prod_beta comp_def)

lemma map_fst_apsnd [simp]: "map fst (map (apsnd g) rs) = map fst rs"
  by simp

lemma ids_ok_cong:
  "ids_ok c \<Longrightarrow> map fst (cl_requests c') = map fst (cl_requests c) \<Longrightarrow> cl_next_id c' = cl_next_id c \<Longrightarrow> ids_ok c'"
  unfolding ids_ok_def by (metis length_map)

lemma client_op_ids: "pending_ok c \<Longrightarrow> ids_ok c \<Longrightarrow> ids_ok (client_do mp op c)"
proof (cases op)
  case (OpStart data)
  assume "pending_ok c" "ids_ok c"
  with OpStart show ?thesis
    by (simp add: ids_ok_def request_start_requests request_start_id ac_simps)
next
  case (OpPoll k elapsed)
  assume ok: "pending_ok c" and ids: "ids_ok c"
  show ?thesis
  proof (rule ids_ok_cong [OF ids])
    show "map fst (cl_requests (client_do mp op c)) = map fst (cl_requests c)"
      using request_poll_requests [OF ok, of k elapsed] OpPoll by auto
    show "cl_next_id (client_do mp op c) = cl_next_id c"
      using ok OpPoll by (auto simp: request_poll_def pending_discard_eq split: prod.splits oneshot.splits)
  qed
next
  case (OpDispatch f)
  assume ok: "pending_ok c" and ids: "ids_ok c"
  show ?thesis
  proof (rule ids_ok_cong [OF ids])
    show "map fst (cl_requests (client_do mp op c)) = map fst (cl_requests c)"
      using ok OpDispatch dispatch_other [of f mp c] by (cases "is_response f") (simp_all add: is_response_def dispatch_response_eq)
    show "cl_next_id (client_do mp op c) = cl_next_id c"
      using OpDispatch by (simp add: dispatch_frame_def notify_def deliver_event_def pending_remove_def update_request_def
          split: frame_kind.splits option.splits)
  qed
next
  case OpClear
  assume ok: "pending_ok c" and ids: "ids_ok c"
  show ?thesis by (rule ids_ok_cong [OF ids]) (use ok OpClear in \<open>simp_all add: pending_clear_eq\<close>)
qed

lemma client_reach_ids: "client_reach mp new_channel config ops c \<Longrightarrow> ids_ok c"
proof (induction rule: client_reach.induct)
  case new
  show ?case by (simp add: ids_ok_def ws_client_new_def)
next
  case (op ops c op)
  then show ?case using client_op_ids client_reach_ok by blast
qed

lemma client_op_new:
  assumes "pending_ok c" "length (cl_requests c) \<le> k" "k < length (cl_requests (client_do mp op c))"
  shows "snd (cl_requests (client_do mp op c) ! k) = Waiting"
proof (cases op)
  case (OpStart data)
  with assms show ?thesis by (simp add: request_start_requests nth_append)
next
  case (OpPoll j elapsed)
  with assms request_poll_requests [OF assms(1), of j elapsed] show ?thesis by (auto split: if_splits)
next
  case (OpDispatch f)
  with assms dispatch_other [of f mp c] show ?thesis
    by (cases "is_response f") (simp_all add: is_response_def dispatch_response_eq)
next
  case OpClear
  with assms show ?thesis by (simp add: pending_clear_eq)
qed

lemma settled_stays:
  assumes "pending_ok c" "k < length (cl_requests c)" "cl_requests c ! k = (rid, s)" "s \<noteq> Waiting"
  shows "cl_requests (fold (client_do mp) ops c) ! k = (rid, s)"
  using assms
proof (induction ops arbitrary: c)
  case (Cons op ops)
  from client_op_request [OF Cons.prems(1-3), of mp op] Cons.prems(4)
  have "k < length (cl_requests (client_do mp op c))" "cl_requests (client_do mp op c) ! k = (rid, s)" by auto
  with Cons.IH [OF client_op_ok [OF Cons.prems(1)]] Cons.prems(4) show ?case by simp
qed simp

text \<open>The source of a response that a request holds.\<close>

definition answered_by :: "('c, client_cmd) mpsc_sender \<Rightarrow> (nat \<Rightarrow> 'c) \<Rightarrow> ws_client_config \<Rightarrow> 'e itself \<Rightarrow>
    client_op list \<Rightarrow> nat \<Rightarrow> u32 \<Rightarrow> transport_error + byte list \<Rightarrow> bool" where
  "answered_by mp new_channel config e ops k rid r \<longleftrightarrow>
     (\<exists>pre f post (c :: ('c, 'e) ws_client). ops = pre @ OpDispatch f # post \<and> is_response f \<and> f_id f = rid \<and>
        r = Inr (f_data f) \<and> client_reach mp new_channel config pre c \<and>
        k < length (cl_requests c) \<and> cl_requests c ! k = (rid, Waiting))"

lemma answered_by_later:
  "answered_by mp new_channel config e ops k rid r \<Longrightarrow> answered_by mp new_channel config e (ops @ [op]) k rid r"
  unfolding answered_by_def by (metis append_Cons append_assoc)

lemma reach_answered:
  fixes c :: "('c, 'e) ws_client"
  shows "client_reach mp new_channel config ops c \<Longrightarrow> k < length (cl_requests c) \<Longrightarrow>
    cl_requests c ! k = (rid, Sent r) \<Longrightarrow> answered_by mp new_channel config TYPE('e) ops k rid r"
proof (induction rule: client_reach.induct)
  case (op ops c op)
  note ok = client_reach_ok [OF op.hyps]
  show ?case
  proof (cases "k < length (cl_requests c)")
    case True
    obtain i s where r: "cl_requests c ! k = (i, s)" by fastforce
    from client_op_request [OF ok True r, of mp op] op.prems(2) consider
      "cl_requests c ! k = (rid, Sent r)"
      | f where "cl_requests c ! k = (rid, Waiting)" "op = OpDispatch f" "is_response f" "f_id f = rid" "r = Inr (f_data f)"
      using r by auto
    then show ?thesis
    proof cases
      case 1
      with op.IH True show ?thesis by (simp add: answered_by_later)
    next
      case 2
      with op.hyps True show ?thesis
        unfolding answered_by_def by (intro exI [of _ ops] exI [of _ f] exI [of _ "[]"] exI [of _ c]) simp
    qed
  next
    case False
    with client_op_new [OF ok, of k mp op] op.prems show ?thesis by simp
  qed
qed (simp add: ws_client_new_def)

section \<open>The requests as a table\<close>

text \<open>
  What the requests promise, without ids and without the map: a slot per request, that takes
  the first response with its number, or loses its sender by a timeout or a disconnect.
\<close>

fun slots_do :: "client_op \<Rightarrow> oneshot list \<Rightarrow> oneshot list" where
  "slots_do (OpStart data) s = s @ [Waiting]"
| "slots_do (OpPoll k elapsed) s = (if elapsed then s[k := drop_sender (s ! k)] else s)"
| "slots_do (OpDispatch f) s =
     (let k = unat (f_id f) - 2 in
      if f_kind f = Message \<and> 2 \<le> f_id f then s[k := send_oneshot (Inr (f_data f)) (s ! k)] else s)"
| "slots_do OpClear s = map drop_sender s"

lemma ids_nth:
  assumes "ids_ok c" "length (cl_requests c) \<le> 2 ^ 32 - 2" "k < length (cl_requests c)"
  shows "fst (cl_requests c ! k) = rid \<longleftrightarrow> 2 \<le> rid \<and> k = unat rid - 2"
proof -
  from assms(1) have "map fst (cl_requests c) ! k = of_nat (k + 2)"
    using assms(3) by (simp only: ids_ok_def) simp
  with assms(3) have "fst (cl_requests c ! k) = of_nat (k + 2)" by simp
  moreover have "unat (of_nat (k + 2) :: u32) = k + 2"
    using assms(2,3) by (simp only: unsigned_of_nat take_bit_eq_mod) simp
  ultimately show ?thesis by (auto simp: word_unat_eq_iff word_le_nat_alt)
qed

lemma on_id_slots:
  assumes "ids_ok c" "length (cl_requests c) \<le> 2 ^ 32 - 2"
  shows "map snd (on_id rid g (cl_requests c)) =
    (let s = map snd (cl_requests c); k = unat rid - 2 in if 2 \<le> rid then s[k := g (s ! k)] else s)"
  by (rule nth_equalityI) (auto simp: Let_def nth_on_id ids_nth [OF assms] nth_list_update)

lemma slots_step:
  assumes ok: "pending_ok c" and ids: "ids_ok c" and len: "length (cl_requests (client_do mp op c)) \<le> 2 ^ 32 - 2"
  shows "map snd (cl_requests (client_do mp op c)) = slots_do op (map snd (cl_requests c))"
proof -
  from client_op_length [OF ok, of mp op] len have len0: "length (cl_requests c) \<le> 2 ^ 32 - 2" by linarith
  note slots = on_id_slots [OF ids len0]
  show ?thesis
  proof (cases op)
    case (OpStart data)
    with ok len have "length (cl_requests c) + 2 < 2 ^ 32" by (simp add: request_start_requests)
    then have "unat (cl_next_id c) = length (cl_requests c) + 2"
      using ids unfolding ids_ok_def by (simp only: unsigned_of_nat take_bit_eq_mod) simp
    with OpStart ok show ?thesis by (simp add: request_start_requests slots Let_def list_update_beyond)
  next
    case (OpPoll k elapsed)
    have "2 \<le> fst (cl_requests c ! k) \<and> unat (fst (cl_requests c ! k)) - 2 = k" if "k < length (cl_requests c)"
      using ids_nth [OF ids len0 that] by metis
    with OpPoll ok show ?thesis
      by (auto simp: request_poll_def pending_discard_eq slots Let_def list_update_beyond list_update_same_conv
          intro!: list_update_same_conv [THEN iffD2, symmetric] split: prod.splits oneshot.splits)
  next
    case (OpDispatch f)
    show ?thesis
    proof (cases "is_response f")
      case True
      with OpDispatch ok show ?thesis by (simp add: is_response_def dispatch_response_eq slots Let_def)
    next
      case False
      moreover have "f_kind f = Message \<Longrightarrow> \<not> 2 \<le> f_id f" using False by (auto simp: is_response_def word_less_nat_alt word_le_nat_alt)
      ultimately show ?thesis using OpDispatch dispatch_other [OF False, of mp c] by (auto simp: Let_def)
    qed
  next
    case OpClear
    with ok show ?thesis by (simp add: pending_clear_eq comp_def)
  qed
qed

section \<open>The endpoint\<close>

interpretation ws_ep: endpoint_store "set_endpoint mp parse" "clear_endpoint mp" endpoint
    "\<lambda>u. map_option (\<lambda>_. u) (parse u)"
  for mp :: "('c, client_cmd) mpsc_sender" and parse :: "rstr \<Rightarrow> 'url option"
  by unfold_locales (auto simp: set_endpoint_def clear_endpoint_def endpoint_def)

section \<open>Properties\<close>

definition sample_client_config :: ws_client_config where
  "sample_client_config = \<lparr>cc_protocol_name = lit ''CAM'', cc_protocol_version = lit ''1.0'',
     cc_heartbeat_interval = 30, cc_heartbeat_timeout = 10, cc_request_timeout = 30, cc_auth_timeout = 15,
     cc_max_payload_bytes = 4194304, cc_noise_server_key = None, cc_backoff = (\<lambda>_. Some 0), cc_buffer_size = 100\<rparr>"

text \<open>A history used by the witnesses: two requests, an answer to the second, a disconnect.\<close>

definition sample_ops :: "client_op list" where
  "sample_ops = [OpStart [1], OpStart [2], OpDispatch \<lparr>f_id = 3, f_kind = Message, f_data = [9]\<rparr>, OpClear]"

definition sample_client :: "(client_cmd list, nat) ws_client" where
  "sample_client = fold (client_do list_sender) sample_ops (ws_client_new (\<lambda>_. []) sample_client_config)"

lemma sample_client_reach: "client_reach list_sender (\<lambda>_. []) sample_client_config sample_ops sample_client"
  unfolding sample_client_def by (rule client_reach_fold)

lemma sample_client_requests: "cl_requests sample_client = [(2, Dropped), (3, Sent (Inr [9]))]"
  by (simp add: sample_client_def sample_ops_def ws_client_new_def request_start_def pending_insert_def
      pending_discard_def pending_remove_def update_request_def dispatch_frame_def pending_clear_def Let_def)

text \<open>
  C7. A response goes to the request it answers: whatever requests, timeouts, frames and
  disconnects came before, if a request got data, then some dispatched \<open>Message\<close> frame carried
  the request's id and exactly this data, and it was dispatched while the request waited.
\<close>

theorem request_correlation:
  fixes c :: "('c, 'e) ws_client"
  assumes "client_reach mp new_channel config ops c" "k < length (cl_requests c)"
    and "request_poll k elapsed c = (Some (Inr data), c')"
  shows "\<exists>pre f post (c1 :: ('c, 'e) ws_client). ops = pre @ OpDispatch f # post \<and>
    f_kind f = Message \<and> 0 < f_id f \<and> f_id f = fst (cl_requests c ! k) \<and> f_data f = data \<and>
    client_reach mp new_channel config pre c1 \<and> k < length (cl_requests c1) \<and>
    cl_requests c1 ! k = (f_id f, Waiting)"
proof -
  from assms(3) have "cl_requests c ! k = (fst (cl_requests c ! k), Sent (Inr data))"
    by (auto simp: request_poll_def split: prod.splits oneshot.splits if_splits)
  with reach_answered [OF assms(1,2)] show ?thesis
    unfolding answered_by_def is_response_def by fastforce
qed

theorem request_correlation_witness:
  "\<exists>pre f post. sample_ops = pre @ OpDispatch f # post \<and> f_id f = 3 \<and> f_data f = [9]"
proof -
  have "request_poll 1 False sample_client = (Some (Inr [9]), sample_client)"
    by (simp add: request_poll_def sample_client_requests)
  from request_correlation [OF sample_client_reach _ this] show ?thesis
    by (auto simp: sample_client_requests)
qed

text \<open>
  A response settles exactly the one waiting request with its id, and touches no other;
  with no such request it is ignored.
\<close>

theorem response_settles_one:
  assumes "client_reach mp new_channel config ops c" "f_kind f = Message" "0 < f_id f"
  shows "(\<forall>k < length (cl_requests c). cl_requests (dispatch_frame mp f c) ! k =
      (if cl_requests c ! k = (f_id f, Waiting) then (f_id f, Sent (Inr (f_data f))) else cl_requests c ! k)) \<and>
    (\<forall>j < length (cl_requests c). \<forall>k < length (cl_requests c).
      cl_requests c ! j = (f_id f, Waiting) \<and> cl_requests c ! k = (f_id f, Waiting) \<longrightarrow> j = k)"
proof -
  note ok = client_reach_ok [OF assms(1)]
  have "send_oneshot r s = s" if "s \<noteq> Waiting" for r s using that by (cases s) simp_all
  then have "\<forall>k < length (cl_requests c). cl_requests (dispatch_frame mp f c) ! k =
      (if cl_requests c ! k = (f_id f, Waiting) then (f_id f, Sent (Inr (f_data f))) else cl_requests c ! k)"
    using assms(2,3) by (auto simp: dispatch_response_eq [OF ok] nth_on_id prod_eq_iff)
  moreover have "j = k" if "j < length (cl_requests c)" "k < length (cl_requests c)"
      "cl_requests c ! j = (f_id f, Waiting)" "cl_requests c ! k = (f_id f, Waiting)" for j k
    using ok that unfolding pending_ok_def by (metis option.inject)
  ultimately show ?thesis by blast
qed

theorem response_settles_one_witness:
  "cl_requests (dispatch_frame list_sender \<lparr>f_id = 2, f_kind = Message, f_data = [7]\<rparr>
     (fold (client_do list_sender) [OpStart [1], OpStart [2]]
       (ws_client_new (\<lambda>_. []) sample_client_config :: (client_cmd list, nat) ws_client))) ! 0 = (2, Sent (Inr [7]))"
proof -
  let ?c = "fold (client_do list_sender) [OpStart [1], OpStart [2]]
      (ws_client_new (\<lambda>_. []) sample_client_config :: (client_cmd list, nat) ws_client)"
  have req: "cl_requests ?c = [(2, Waiting), (3, Waiting)]"
    by (simp add: ws_client_new_def request_start_def pending_insert_def pending_discard_def pending_remove_def Let_def)
  have "client_reach list_sender (\<lambda>_. []) sample_client_config [OpStart [1], OpStart [2]] ?c"
    by (rule client_reach_fold)
  from response_settles_one [OF this, of "\<lparr>f_id = 2, f_kind = Message, f_data = [7]\<rparr>"] show ?thesis
    unfolding req by simp
qed

text \<open>
  A request is settled once: from the moment its channel holds a response or has lost its
  sender, no later operation changes what its future will return.
\<close>

theorem request_settled_once:
  assumes "client_reach mp new_channel config ops c" "k < length (cl_requests c)"
    and "fst (request_poll k False c) = Some r"
  shows "fst (request_poll k elapsed (fold (client_do mp) later c)) = Some r"
proof -
  obtain rid s where r: "cl_requests c ! k = (rid, s)" by fastforce
  with assms(3) have "s \<noteq> Waiting" by (auto simp: request_poll_def)
  with settled_stays [OF client_reach_ok [OF assms(1)] assms(2) r] r assms(3) show ?thesis
    by (auto simp: request_poll_def split: oneshot.splits)
qed

theorem request_settled_once_witness:
  "fst (request_poll 1 True (fold (client_do list_sender)
      [OpDispatch \<lparr>f_id = 3, f_kind = Message, f_data = [5]\<rparr>, OpClear] sample_client)) = Some (Inr [9])"
  by (rule request_settled_once [OF sample_client_reach]) (simp_all add: request_poll_def sample_client_requests)

text \<open>
  No request outlives the connection: after the clearing that follows a disconnect every
  future returns at its next turn, those that still waited with \<open>ChannelError\<close>.
\<close>

theorem disconnect_releases_requests:
  assumes "client_reach mp new_channel config ops c" "k < length (cl_requests c)"
  shows "\<exists>r. fst (request_poll k False (pending_clear c)) = Some r \<and>
    (snd (cl_requests c ! k) = Waiting \<longrightarrow> r = Inl ChannelError)"
  using assms(2) by (cases "cl_requests c ! k"; cases "snd (cl_requests c ! k)")
    (simp_all add: request_poll_def pending_clear_eq [OF client_reach_ok [OF assms(1)]] map_apsnd_nth)

theorem disconnect_releases_requests_witness:
  "\<exists>r. fst (request_poll 0 False (pending_clear (fold (client_do list_sender) [OpStart [1]]
      (ws_client_new (\<lambda>_. []) sample_client_config :: (client_cmd list, nat) ws_client)))) = Some r \<and> r = Inl ChannelError"
proof -
  let ?c = "fold (client_do list_sender) [OpStart [1]]
      (ws_client_new (\<lambda>_. []) sample_client_config :: (client_cmd list, nat) ws_client)"
  have req: "cl_requests ?c = [(2, Waiting)]"
    by (simp add: ws_client_new_def request_start_def pending_insert_def pending_discard_def pending_remove_def Let_def)
  have "client_reach list_sender (\<lambda>_. []) sample_client_config [OpStart [1]] ?c" by (rule client_reach_fold)
  from disconnect_releases_requests [OF this, of 0] show ?thesis unfolding req by simp
qed

text \<open>
  C33. Request number \<open>k\<close> (from 0) has the id \<open>k + 2\<close> modulo \<open>2\<^sup>3\<^sup>2\<close>.  So ids stay clear of 0
  (events) and 1 (authentication) and distinct for the first \<open>2\<^sup>3\<^sup>2 - 2\<close> requests; the next
  one gets id 0, and what answers it goes to the event handler.
\<close>

theorem request_ids:
  assumes "client_reach mp new_channel config ops c" "k < length (cl_requests c)"
  shows "unat (fst (cl_requests c ! k)) = (k + 2) mod 2 ^ 32 \<and>
    (k < 2 ^ 32 - 2 \<longrightarrow> 2 \<le> fst (cl_requests c ! k)) \<and>
    (k = 2 ^ 32 - 2 \<longrightarrow> fst (cl_requests c ! k) = 0 \<and>
       (\<forall>d. dispatch_frame mp \<lparr>f_id = fst (cl_requests c ! k), f_kind = Message, f_data = d\<rparr> c = deliver_event d c))"
proof -
  from client_reach_ids [OF assms(1)] have "map fst (cl_requests c) ! k = of_nat (k + 2)"
    using assms(2) by (simp only: ids_ok_def) simp
  with assms(2) have id: "fst (cl_requests c ! k) = of_nat (k + 2)" by simp
  then have u: "unat (fst (cl_requests c ! k)) = (k + 2) mod 2 ^ 32"
    by (simp only: unsigned_of_nat take_bit_eq_mod) simp
  moreover have "2 \<le> fst (cl_requests c ! k)" if "k < 2 ^ 32 - 2"
    using u that by (simp add: word_le_nat_alt)
  moreover have zero: "fst (cl_requests c ! k) = 0" if "k = 2 ^ 32 - 2"
    using u that by (simp add: word_unat_eq_iff)
  ultimately show ?thesis by (simp add: dispatch_frame_def)
qed

theorem request_ids_witness:
  "unat (fst (cl_requests sample_client ! 1)) = (1 + 2) mod 2 ^ 32 \<and> 2 \<le> fst (cl_requests sample_client ! 1)"
  using request_ids [OF sample_client_reach, of 1] by (simp add: sample_client_requests)

text \<open>
  C22. The pending map, the ids and the one-shot channels together implement a table with one slot
  per request: for the first \<open>2\<^sup>3\<^sup>2 - 2\<close> requests, what the futures wait on after any history
  is what the same history does to the table.
\<close>

theorem requests_refine:
  assumes "client_reach mp new_channel config ops c" "length (cl_requests c) \<le> 2 ^ 32 - 2"
  shows "map snd (cl_requests c) = fold slots_do ops []"
  using assms
proof (induction rule: client_reach.induct)
  case new
  show ?case by (simp add: ws_client_new_def)
next
  case (op ops c op)
  note ok = client_reach_ok [OF op.hyps] and ids = client_reach_ids [OF op.hyps]
  from client_op_length [OF ok, of mp op] op.prems have "length (cl_requests c) \<le> 2 ^ 32 - 2" by linarith
  with op.IH slots_step [OF ok ids op.prems] show ?case by simp
qed

theorem requests_refine_witness:
  "map snd (cl_requests sample_client) = [Dropped, Sent (Inr [9])] \<and>
   fold slots_do sample_ops [] = [Dropped, Sent (Inr [9])]"
  using requests_refine [OF sample_client_reach] by (simp add: sample_client_requests)

end
