(* ===== verification/Crypto.thy ===== *)
theory Crypto
  imports Errors
begin

text \<open>
  \<open>src/crypto.rs\<close>: the Noise session and its chunked encryption.  The \<open>snow\<close> crate is a
  parameter: a record of the functions the session calls on a handshake state \<open>'h\<close> and on a
  transport state \<open>'t\<close>, and a record of the builder's functions.

  A snow call that fills a buffer and returns a length is a function from the input and the
  buffer's size to the bytes written; errors are the error's text.  What the transport relies on
  is \<open>snow_transport_ok\<close>: two transport states of one handshake decrypt what the other
  encrypted, in order, as long as nonces last.
\<close>

section \<open>The snow crate\<close>

record ('h, 't) snow =
  hs_read :: "'h \<Rightarrow> byte list \<Rightarrow> nat \<Rightarrow> (rstr + byte list) \<times> 'h"
  hs_write :: "'h \<Rightarrow> byte list \<Rightarrow> nat \<Rightarrow> (rstr + byte list) \<times> 'h"
  hs_finished :: "'h \<Rightarrow> bool"
  into_transport_mode :: "'h \<Rightarrow> rstr + 't"
  tr_read :: "'t \<Rightarrow> byte list \<Rightarrow> nat \<Rightarrow> (rstr + byte list) \<times> 't"
  tr_write :: "'t \<Rightarrow> byte list \<Rightarrow> nat \<Rightarrow> (rstr + byte list) \<times> 't"

record ('p, 'b, 'h) snow_builder =
  parse_pattern :: "rstr \<Rightarrow> rstr + 'p"
  builder_new :: "'p \<Rightarrow> 'b"
  builder_keypair :: "'b \<Rightarrow> rstr + (byte list \<times> byte list)"
  local_private_key :: "'b \<Rightarrow> byte list \<Rightarrow> rstr + 'b"
  remote_public_key :: "'b \<Rightarrow> byte list \<Rightarrow> rstr + 'b"
  build_initiator :: "'b \<Rightarrow> rstr + 'h"
  build_responder :: "'b \<Rightarrow> rstr + 'h"

section \<open>Sessions\<close>

definition noise_pattern :: rstr where
  "noise_pattern = lit ''Noise_XX_25519_ChaChaPoly_BLAKE2b''"

definition max_chunk_plain :: nat where
  "max_chunk_plain = 65535 - 16"

datatype ('h, 't) noise_state = Handshake 'h | Transport 't

record ('h, 't) noise_session =
  ns_state :: "('h, 't) noise_state option"

text \<open>\<open>NoiseSession::client\<close>: a fresh key pair each time, the pinned key handed to the builder.\<close>

definition noise_client ::
  "('p, 'b, 'h) snow_builder \<Rightarrow> byte list option \<Rightarrow> crypto_error + ('h, 't) noise_session" where
  "noise_client sb server_static_key =
     res_bind (map_err PatternParse (parse_pattern sb noise_pattern)) (\<lambda>pattern.
     let builder = builder_new sb pattern in
     res_bind (map_err HandshakeFailed (builder_keypair sb builder)) (\<lambda>keypair.
     res_bind (map_err HandshakeFailed (local_private_key sb builder (fst keypair))) (\<lambda>builder.
     res_bind (case server_static_key of
                 None \<Rightarrow> Inr builder
               | Some sk \<Rightarrow> map_err HandshakeFailed (remote_public_key sb builder sk)) (\<lambda>builder.
     res_bind (map_err HandshakeFailed (build_initiator sb builder)) (\<lambda>handshake.
     Inr \<lparr>ns_state = Some (Handshake handshake)\<rparr>)))))"

definition noise_server ::
  "('p, 'b, 'h) snow_builder \<Rightarrow> byte list \<Rightarrow> crypto_error + ('h, 't) noise_session" where
  "noise_server sb static_key =
     res_bind (map_err PatternParse (parse_pattern sb noise_pattern)) (\<lambda>pattern.
     let builder = builder_new sb pattern in
     res_bind (map_err HandshakeFailed (local_private_key sb builder static_key)) (\<lambda>builder.
     res_bind (map_err HandshakeFailed (build_responder sb builder)) (\<lambda>handshake.
     Inr \<lparr>ns_state = Some (Handshake handshake)\<rparr>)))"

text \<open>
  Both message methods take the state out of the session first and put one back only when
  they succeed: \<open>finish_handshake\<close> is the common end of their handshake branches.
\<close>

definition finish_handshake ::
  "('h, 't) snow \<Rightarrow> (rstr + byte list) \<times> 'h \<Rightarrow> (crypto_error + byte list) \<times> ('h, 't) noise_session" where
  "finish_handshake sn r =
     (case r of
        (Inl e, _) \<Rightarrow> (Inl (HandshakeFailed e), \<lparr>ns_state = None\<rparr>)
      | (Inr out, s) \<Rightarrow>
          (if hs_finished sn s then
             (case into_transport_mode sn s of
                Inl e \<Rightarrow> (Inl (HandshakeFailed e), \<lparr>ns_state = None\<rparr>)
              | Inr transport \<Rightarrow> (Inr out, \<lparr>ns_state = Some (Transport transport)\<rparr>))
           else (Inr out, \<lparr>ns_state = Some (Handshake s)\<rparr>)))"

definition read_message ::
  "('h, 't) snow \<Rightarrow> ('h, 't) noise_session \<Rightarrow> byte list \<Rightarrow> nat \<Rightarrow>
    (crypto_error + byte list) \<times> ('h, 't) noise_session" where
  "read_message sn ns packet payload_len =
     (case ns_state ns of
        None \<Rightarrow> (Inl InvalidState, \<lparr>ns_state = None\<rparr>)
      | Some (Handshake s) \<Rightarrow> finish_handshake sn (hs_read sn s packet payload_len)
      | Some (Transport s) \<Rightarrow>
          (case tr_read sn s packet payload_len of
             (Inl e, _) \<Rightarrow> (Inl (DecryptFailed e), \<lparr>ns_state = None\<rparr>)
           | (Inr out, s1) \<Rightarrow> (Inr out, \<lparr>ns_state = Some (Transport s1)\<rparr>)))"

definition write_message ::
  "('h, 't) snow \<Rightarrow> ('h, 't) noise_session \<Rightarrow> byte list \<Rightarrow> nat \<Rightarrow>
    (crypto_error + byte list) \<times> ('h, 't) noise_session" where
  "write_message sn ns payload packet_len =
     (case ns_state ns of
        None \<Rightarrow> (Inl InvalidState, \<lparr>ns_state = None\<rparr>)
      | Some (Handshake s) \<Rightarrow> finish_handshake sn (hs_write sn s payload packet_len)
      | Some (Transport s) \<Rightarrow>
          (case tr_write sn s payload packet_len of
             (Inl e, _) \<Rightarrow> (Inl (EncryptFailed e), \<lparr>ns_state = None\<rparr>)
           | (Inr out, s1) \<Rightarrow> (Inr out, \<lparr>ns_state = Some (Transport s1)\<rparr>)))"

definition is_finished :: "('h, 't) noise_session \<Rightarrow> bool" where
  "is_finished ns = (case ns_state ns of Some (Transport _) \<Rightarrow> True | _ \<Rightarrow> False)"

section \<open>Chunked encryption\<close>

text \<open>The packet buffer of a chunk is 16 bytes longer than the chunk.\<close>

definition encrypt_chunk ::
  "('h, 't) snow \<Rightarrow> ('h, 't) noise_session \<Rightarrow> byte list \<Rightarrow>
    (crypto_error + byte list) \<times> ('h, 't) noise_session" where
  "encrypt_chunk sn ns chunk = write_message sn ns chunk (length chunk + 16)"

definition encrypt_chunked ::
  "('h, 't) snow \<Rightarrow> ('h, 't) noise_session \<Rightarrow> byte list \<Rightarrow>
    (crypto_error + byte list list) \<times> ('h, 't) noise_session" where
  "encrypt_chunked sn ns payload = try_map (encrypt_chunk sn) ns (chunks max_chunk_plain payload)"

text \<open>The receive buffer has the packet's length, here and in the receive loops.\<close>

definition decrypt_packet ::
  "('h, 't) snow \<Rightarrow> ('h, 't) noise_session \<Rightarrow> byte list \<Rightarrow>
    (crypto_error + byte list) \<times> ('h, 't) noise_session" where
  "decrypt_packet sn ns packet = read_message sn ns packet (length packet)"

definition decrypt_chunked ::
  "('h, 't) snow \<Rightarrow> ('h, 't) noise_session \<Rightarrow> byte list list \<Rightarrow>
    (crypto_error + byte list) \<times> ('h, 't) noise_session" where
  "decrypt_chunked sn ns packets =
     (case try_map (decrypt_packet sn) ns packets of
        (Inl e, s) \<Rightarrow> (Inl e, s)
      | (Inr outs, s) \<Rightarrow> (Inr (concat outs), s))"

section \<open>Key generation\<close>

text \<open>The conversion to a 32-byte array fails for any other length.\<close>

definition generate_keypair ::
  "('p, 'b, 'h) snow_builder \<Rightarrow> crypto_error + (byte list \<times> byte list)" where
  "generate_keypair sb =
     res_bind (map_err PatternParse (parse_pattern sb noise_pattern)) (\<lambda>pattern.
     let builder = builder_new sb pattern in
     res_bind (map_err HandshakeFailed (builder_keypair sb builder)) (\<lambda>kp.
     if length (fst kp) \<noteq> 32 then Inl InvalidKeyLength
     else if length (snd kp) \<noteq> 32 then Inl InvalidKeyLength
     else Inr (fst kp, snd kp)))"

section \<open>The session's states\<close>

lemma finish_handshake_Inr:
  assumes "finish_handshake sn r = (Inr out, ns)"
  shows "(\<exists>s. ns_state ns = Some (Handshake s)) \<or> is_finished ns"
  using assms by (auto simp: finish_handshake_def is_finished_def split: prod.splits sum.splits if_splits)

lemma finish_handshake_Inl:
  assumes "finish_handshake sn r = (Inl e, ns)"
  shows "ns_state ns = None \<and> (\<exists>s. e = HandshakeFailed s)"
  using assms by (auto simp: finish_handshake_def split: prod.splits sum.splits if_splits)

lemma read_message_Inl: "read_message sn ns pk n = (Inl e, ns') \<Longrightarrow> ns_state ns' = None"
  by (auto simp: read_message_def split: option.splits noise_state.splits prod.splits sum.splits
      dest: finish_handshake_Inl)

lemma write_message_Inl: "write_message sn ns pl n = (Inl e, ns') \<Longrightarrow> ns_state ns' = None"
  by (auto simp: write_message_def split: option.splits noise_state.splits prod.splits sum.splits
      dest: finish_handshake_Inl)

lemma read_message_finished: "is_finished ns \<Longrightarrow> read_message sn ns pk n = (Inr out, ns') \<Longrightarrow> is_finished ns'"
  by (auto simp: read_message_def is_finished_def split: option.splits noise_state.splits prod.splits sum.splits)

lemma write_message_finished: "is_finished ns \<Longrightarrow> write_message sn ns pl n = (Inr out, ns') \<Longrightarrow> is_finished ns'"
  by (auto simp: write_message_def is_finished_def split: option.splits noise_state.splits prod.splits sum.splits)

text \<open>The calls a user makes on a session, and a run of them.\<close>

datatype noise_call = ReadCall "byte list" nat | WriteCall "byte list" nat

fun do_call :: "('h, 't) snow \<Rightarrow> ('h, 't) noise_session \<Rightarrow> noise_call \<Rightarrow>
    (crypto_error + byte list) \<times> ('h, 't) noise_session" where
  "do_call sn ns (ReadCall pk n) = read_message sn ns pk n"
| "do_call sn ns (WriteCall pl n) = write_message sn ns pl n"

fun noise_calls :: "('h, 't) snow \<Rightarrow> ('h, 't) noise_session \<Rightarrow> noise_call list \<Rightarrow>
    (crypto_error + byte list) list \<times> ('h, 't) noise_session" where
  "noise_calls sn ns [] = ([], ns)"
| "noise_calls sn ns (c # cs) =
     (let step = do_call sn ns c; rest = noise_calls sn (snd step) cs in (fst step # fst rest, snd rest))"

lemma do_call_dead:
  "ns_state ns = None \<Longrightarrow> do_call sn ns c = (Inl InvalidState, \<lparr>ns_state = None\<rparr>)"
  by (cases c) (simp_all add: read_message_def write_message_def)

lemma do_call_Inl: "do_call sn ns c = (Inl e, ns') \<Longrightarrow> ns_state ns' = None"
  by (cases c) (simp_all add: read_message_Inl write_message_Inl)

lemma do_call_finished: "is_finished ns \<Longrightarrow> do_call sn ns c = (Inr out, ns') \<Longrightarrow> is_finished ns'"
  by (cases c) (auto intro: read_message_finished write_message_finished)

lemma noise_calls_dead:
  "ns_state ns = None \<Longrightarrow> fst (noise_calls sn ns cs) = replicate (length cs) (Inl InvalidState)"
  by (induction cs arbitrary: ns) (simp_all add: do_call_dead Let_def)

lemma noise_calls_dead_state: "ns_state ns = None \<Longrightarrow> ns_state (snd (noise_calls sn ns cs)) = None"
  by (induction cs arbitrary: ns) (simp_all add: do_call_dead Let_def)

lemma noise_calls_finished:
  "is_finished ns \<Longrightarrow> is_finished (snd (noise_calls sn ns cs)) \<or> ns_state (snd (noise_calls sn ns cs)) = None"
proof (induction cs arbitrary: ns)
  case (Cons c cs)
  obtain r ns1 where step: "do_call sn ns c = (r, ns1)" by fastforce
  show ?case
  proof (cases r)
    case (Inl e)
    with step noise_calls_dead_state [OF do_call_Inl, of sn ns c e ns1 sn cs] show ?thesis by (simp add: Let_def)
  next
    case (Inr out)
    with step Cons.IH [OF do_call_finished [OF Cons.prems]] show ?thesis by (auto simp: Let_def)
  qed
qed simp

section \<open>The packet contract\<close>

text \<open>
  A sealing and an unsealing end that stay in step: what one seals the other opens, for as
  many packets as the pair is good for.
\<close>

locale packet_channel =
  fixes seal :: "'s \<Rightarrow> byte list \<Rightarrow> ('e + byte list) \<times> 's"
    and unseal :: "'r \<Rightarrow> byte list \<Rightarrow> ('f + byte list) \<times> 'r"
    and paired :: "nat \<Rightarrow> 's \<Rightarrow> 'r \<Rightarrow> bool"
    and limit :: nat
    and overhead :: nat
  assumes seal_unseal: "paired (Suc k) s r \<Longrightarrow> length p \<le> limit \<Longrightarrow>
      \<exists>c s' r'. seal s p = (Inr c, s') \<and> unseal r c = (Inr p, r') \<and> paired k s' r' \<and>
        length c = length p + overhead"
begin

lemma seal_all:
  assumes "paired k s r" "length ps \<le> k" "\<forall>p \<in> set ps. length p \<le> limit"
  shows "\<exists>cs s' r'. try_map seal s ps = (Inr cs, s') \<and> try_map unseal r cs = (Inr ps, r') \<and>
    paired (k - length ps) s' r' \<and> map length cs = map (\<lambda>p. length p + overhead) ps"
  using assms
proof (induction ps arbitrary: k s r)
  case Nil
  then show ?case by auto
next
  case (Cons p ps)
  then obtain k' where k: "k = Suc k'" by (cases k) auto
  with Cons.prems seal_unseal [of k' s r p] obtain c s1 r1 where
    1: "seal s p = (Inr c, s1)" "unseal r c = (Inr p, r1)" "paired k' s1 r1" "length c = length p + overhead"
    by auto
  from Cons.IH [OF 1(3)] Cons.prems(2,3) k obtain cs s' r' where
    2: "try_map seal s1 ps = (Inr cs, s')" "try_map unseal r1 cs = (Inr ps, r')"
      "paired (k' - length ps) s' r'" "map length cs = map (\<lambda>p. length p + overhead) ps"
    by auto
  show ?case
    by (rule exI [of _ "c # cs"], rule exI [of _ s'], rule exI [of _ r']) (simp add: 1 2 k)
qed

end

definition snow_transport_ok :: "('h, 't) snow \<Rightarrow> (nat \<Rightarrow> 't \<Rightarrow> 't \<Rightarrow> bool) \<Rightarrow> bool" where
  "snow_transport_ok sn pair \<longleftrightarrow>
     (\<forall>k s r p. pair (Suc k) s r \<longrightarrow> length p \<le> max_chunk_plain \<longrightarrow>
        (\<exists>c s' r'. tr_write sn s p (length p + 16) = (Inr c, s') \<and> length c = length p + 16 \<and>
           tr_read sn r c (length c) = (Inr p, r') \<and> pair k s' r'))"

text \<open>Two sessions past the handshake whose transport states are in step.\<close>

definition noise_paired ::
  "('h, 't) snow \<Rightarrow> (nat \<Rightarrow> 't \<Rightarrow> 't \<Rightarrow> bool) \<Rightarrow> nat \<Rightarrow> ('h, 't) noise_session \<Rightarrow> ('h, 't) noise_session \<Rightarrow> bool" where
  "noise_paired sn pair k ns nr \<longleftrightarrow> snow_transport_ok sn pair \<and>
     (\<exists>s r. ns_state ns = Some (Transport s) \<and> ns_state nr = Some (Transport r) \<and> pair k s r)"

interpretation noise: packet_channel "encrypt_chunk sn" "decrypt_packet sn" "noise_paired sn pair" max_chunk_plain 16
  for sn :: "('h, 't) snow" and pair
proof unfold_locales
  fix k and ns nr :: "('h, 't) noise_session" and p :: "byte list"
  assume "noise_paired sn pair (Suc k) ns nr" and len: "length p \<le> max_chunk_plain"
  then obtain s r where ok: "snow_transport_ok sn pair" and
    st: "ns_state ns = Some (Transport s)" "ns_state nr = Some (Transport r)" "pair (Suc k) s r"
    by (auto simp: noise_paired_def)
  with len obtain c s' r' where
    "tr_write sn s p (length p + 16) = (Inr c, s')" "length c = length p + 16"
    "tr_read sn r c (length c) = (Inr p, r')" "pair k s' r'"
    unfolding snow_transport_ok_def by blast
  with ok st show "\<exists>c s' r'. encrypt_chunk sn ns p = (Inr c, s') \<and> decrypt_packet sn nr c = (Inr p, r') \<and>
      noise_paired sn pair k s' r' \<and> length c = length p + 16"
    by (auto simp: encrypt_chunk_def decrypt_packet_def write_message_def read_message_def noise_paired_def)
qed

lemma chunk_fits: "\<forall>c \<in> set (chunks max_chunk_plain payload). length c \<le> max_chunk_plain"
  using chunks_elem by blast

lemma chunk_total:
  "map length cs = map (\<lambda>p. length p + n) ps \<Longrightarrow> length (concat cs) = length (concat ps) + n * length ps"
proof (induction ps arbitrary: cs)
  case (Cons p ps)
  then obtain c cs' where "cs = c # cs'" by (cases cs) auto
  with Cons show ?case by simp
qed simp

text \<open>Encrypting a payload and decrypting its packets in order gives the payload back.\<close>

lemma encrypt_chunked_paired:
  assumes "noise_paired sn pair k ns nr" "length (chunks max_chunk_plain payload) \<le> k"
  shows "\<exists>packets ns' nr'.
    encrypt_chunked sn ns payload = (Inr packets, ns') \<and>
    try_map (decrypt_packet sn) nr packets = (Inr (chunks max_chunk_plain payload), nr') \<and>
    noise_paired sn pair (k - length packets) ns' nr' \<and>
    map length packets = map (\<lambda>c. length c + 16) (chunks max_chunk_plain payload)"
proof -
  from noise.seal_all [OF assms chunk_fits] obtain packets ns' nr' where
    *: "try_map (encrypt_chunk sn) ns (chunks max_chunk_plain payload) = (Inr packets, ns')"
      "try_map (decrypt_packet sn) nr packets = (Inr (chunks max_chunk_plain payload), nr')"
      "noise_paired sn pair (k - length (chunks max_chunk_plain payload)) ns' nr'"
      "map length packets = map (\<lambda>c. length c + 16) (chunks max_chunk_plain payload)" by blast
  then have "length packets = length (chunks max_chunk_plain payload)" by (metis length_map)
  with * show ?thesis by (auto simp: encrypt_chunked_def)
qed

section \<open>A concrete instance for the witnesses\<close>

text \<open>
  A stand-in for the crate: a handshake of three messages, a transport state that counts the
  nonces left and pads each packet with a 16-byte tag.
\<close>

definition sample_snow :: "(nat, nat) snow" where
  "sample_snow = \<lparr>
     hs_read = (\<lambda>s pk n. (Inr pk, Suc s)),
     hs_write = (\<lambda>s pl n. (Inr pl, Suc s)),
     hs_finished = (\<lambda>s. 3 \<le> s),
     into_transport_mode = (\<lambda>s. Inr 1000),
     tr_read = (\<lambda>t pk n. if t = 0 \<or> length pk < 16 then (Inl [], t) else (Inr (take (length pk - 16) pk), t - 1)),
     tr_write = (\<lambda>t pl n. if t = 0 then (Inl [], t) else (Inr (pl @ replicate 16 0), t - 1))\<rparr>"

definition sample_pair :: "nat \<Rightarrow> nat \<Rightarrow> nat \<Rightarrow> bool" where
  "sample_pair k s r \<longleftrightarrow> k \<le> s \<and> s = r"

lemma sample_snow_ok: "snow_transport_ok sample_snow sample_pair"
  by (auto simp: snow_transport_ok_def sample_snow_def sample_pair_def)

lemma sample_noise_paired:
  "k \<le> n \<Longrightarrow> noise_paired sample_snow sample_pair k \<lparr>ns_state = Some (Transport n)\<rparr> \<lparr>ns_state = Some (Transport n)\<rparr>"
  by (simp add: noise_paired_def sample_snow_ok sample_pair_def)

definition sample_builder :: "(unit, unit, nat) snow_builder" where
  "sample_builder = \<lparr>parse_pattern = (\<lambda>_. Inr ()), builder_new = (\<lambda>_. ()),
     builder_keypair = (\<lambda>_. Inr (replicate 32 1, replicate 32 2)),
     local_private_key = (\<lambda>b _. Inr b), remote_public_key = (\<lambda>b _. Inr b),
     build_initiator = (\<lambda>_. Inr 0), build_responder = (\<lambda>_. Inr 0)\<rparr>"

lemma sample_builder_server:
  "noise_server sample_builder k = Inr \<lparr>ns_state = Some (Handshake 0)\<rparr>"
  by (simp add: noise_server_def sample_builder_def)

lemma sample_builder_client:
  "noise_client sample_builder pin = Inr \<lparr>ns_state = Some (Handshake 0)\<rparr>"
  by (cases pin) (simp_all add: noise_client_def sample_builder_def)

lemma sample_encrypt_chunk [simp]:
  "0 < n \<Longrightarrow> encrypt_chunk sample_snow \<lparr>ns_state = Some (Transport n)\<rparr> p =
     (Inr (p @ replicate 16 0), \<lparr>ns_state = Some (Transport (n - 1))\<rparr>)"
  by (simp add: encrypt_chunk_def write_message_def sample_snow_def)

lemma sample_decrypt_packet [simp]:
  "0 < n \<Longrightarrow> decrypt_packet sample_snow \<lparr>ns_state = Some (Transport n)\<rparr> (p @ replicate 16 0) =
     (Inr p, \<lparr>ns_state = Some (Transport (n - 1))\<rparr>)"
  by (simp add: decrypt_packet_def read_message_def sample_snow_def)

section \<open>Properties\<close>

text \<open>
  C15. A payload of any size survives the chunked encryption: the peer session decrypts the
  packets back to it, each packet fits a Noise message (at most 65535 bytes), and the number
  of packets and their total size are exactly what the chunk size and the 16-byte tags cost.
\<close>

theorem chunked_roundtrip:
  assumes "noise_paired sn pair k ns nr" "(length payload + 65518) div 65519 \<le> k"
  shows "\<exists>packets ns' nr'.
    encrypt_chunked sn ns payload = (Inr packets, ns') \<and>
    decrypt_chunked sn nr packets = (Inr payload, nr') \<and>
    noise_paired sn pair (k - length packets) ns' nr' \<and>
    length packets = (length payload + 65518) div 65519 \<and>
    length (concat packets) = length payload + 16 * length packets \<and>
    (\<forall>pk \<in> set packets. length pk \<le> 65535)"
proof -
  let ?cs = "chunks max_chunk_plain payload"
  have n: "length ?cs = (length payload + 65518) div 65519"
    using length_chunks [of max_chunk_plain payload] by (simp add: max_chunk_plain_def)
  from encrypt_chunked_paired [OF assms(1), of payload] assms(2) obtain packets ns' nr' where
    *: "encrypt_chunked sn ns payload = (Inr packets, ns')"
      "try_map (decrypt_packet sn) nr packets = (Inr ?cs, nr')"
      "noise_paired sn pair (k - length packets) ns' nr'"
      "map length packets = map (\<lambda>c. length c + 16) ?cs"
    by (auto simp: n)
  have len: "length packets = length ?cs" using *(4) by (metis length_map)
  have "length ` set packets = (\<lambda>c. length c + 16) ` set ?cs" using *(4) by (metis list.set_map)
  with chunk_fits [of payload] have "\<forall>pk \<in> set packets. length pk \<le> 65535"
    by (auto simp: max_chunk_plain_def dest!: equalityD1 [THEN subsetD, OF _ imageI])
  moreover have "concat ?cs = payload" by (rule concat_chunks) (simp add: max_chunk_plain_def)
  ultimately show ?thesis
    using * chunk_total [OF *(4)] len n by (auto simp: decrypt_chunked_def)
qed

theorem chunked_roundtrip_witness:
  "\<exists>packets ns' nr'.
    encrypt_chunked sample_snow \<lparr>ns_state = Some (Transport 5)\<rparr> (replicate 200000 (0x42 :: byte)) = (Inr packets, ns') \<and>
    decrypt_chunked sample_snow \<lparr>ns_state = Some (Transport 5)\<rparr> packets = (Inr (replicate 200000 0x42), nr') \<and>
    length packets = 4"
proof -
  have "(length (replicate 200000 (0x42 :: byte)) + 65518) div 65519 \<le> (5 :: nat)" by simp
  from chunked_roundtrip [OF sample_noise_paired [OF order_refl] this] show ?thesis
    by auto
qed

text \<open>
  C26. A session that failed once is dead: after any error every further call, in either
  direction, fails with \<open>InvalidState\<close>, so no message is ever sent or accepted under a state
  that lost step with the peer.
\<close>

theorem noise_error_is_final:
  assumes "do_call sn ns c = (Inl e, ns')"
  shows "fst (noise_calls sn ns' cs) = replicate (length cs) (Inl InvalidState)"
  using do_call_Inl [OF assms] by (rule noise_calls_dead)

theorem noise_error_is_final_witness:
  "fst (noise_calls sample_snow (snd (do_call sample_snow \<lparr>ns_state = Some (Transport 0)\<rparr> (WriteCall [1] 17)))
      [WriteCall [1] 17, ReadCall [2] 1]) = [Inl InvalidState, Inl InvalidState]"
proof -
  have "do_call sample_snow \<lparr>ns_state = Some (Transport 0)\<rparr> (WriteCall [1] 17) =
      (Inl (EncryptFailed []), \<lparr>ns_state = None\<rparr>)"
    by (simp add: write_message_def sample_snow_def)
  from noise_error_is_final [OF this, of "[WriteCall [1] 17, ReadCall [2] 1]"] this
  show ?thesis by simp
qed

text \<open>
  Once the handshake is over no call brings a session back into it: every later call
  either succeeds and leaves it in transport mode or fails and leaves it dead.
\<close>

theorem noise_never_leaves_transport:
  assumes "is_finished ns"
  shows "is_finished (snd (noise_calls sn ns cs)) \<or> ns_state (snd (noise_calls sn ns cs)) = None"
  using assms by (rule noise_calls_finished)

theorem noise_never_leaves_transport_witness:
  "is_finished (snd (noise_calls sample_snow \<lparr>ns_state = Some (Transport 1)\<rparr> [WriteCall [1] 17])) \<or>
   ns_state (snd (noise_calls sample_snow \<lparr>ns_state = Some (Transport 1)\<rparr> [WriteCall [1] 17])) = None"
  by (rule noise_never_leaves_transport) (simp add: is_finished_def)

end
