(* ===== verification/Wire.thy ===== *)
theory Wire
  imports Frame Crypto
begin

text \<open>
  What client and server share on an open connection: the WebSocket as the code uses it, the
  path of an incoming packet (decrypt, reassemble, decode) and the path of an outgoing frame
  (encode, encrypt in chunks, send).  The source writes both paths out in
  \<open>src/ws/server/session.rs\<close> and in \<open>src/ws/client/connection_loop.rs\<close>.

  A WebSocket is a parameter: a record of the operations the code awaits on a socket state.
  \<open>ws_next\<close> gives \<open>None\<close> at the end of the stream, an error text or a message.
\<close>

section \<open>Sockets\<close>

record ('w, 'm) websocket =
  ws_next :: "'w \<Rightarrow> (rstr + 'm) option \<times> 'w"
  ws_send :: "'w \<Rightarrow> 'm \<Rightarrow> (rstr + unit) \<times> 'w"
  ws_close :: "'w \<Rightarrow> (rstr + unit) \<times> 'w"

text \<open>
  \<open>for chunk in chunks { if ws.send(Binary(chunk)).await.is_err() { break } }\<close>: the result
  tells whether every chunk went out.
\<close>

fun send_chunks :: "('w, 'm) websocket \<Rightarrow> (byte list \<Rightarrow> 'm) \<Rightarrow> 'w \<Rightarrow> byte list list \<Rightarrow> bool \<times> 'w" where
  "send_chunks sk bin w [] = (True, w)"
| "send_chunks sk bin w (c # cs) =
     (case ws_send sk w (bin c) of
        (Inl e, w1) \<Rightarrow> (False, w1)
      | (Inr _, w1) \<Rightarrow> send_chunks sk bin w1 cs)"

text \<open>The messages of tungstenite, which the server's socket carries.\<close>

datatype ws_message =
    MText rstr
  | MBinary "byte list"
  | MPing "byte list"
  | MPong "byte list"
  | MClose
  | MFrame

section \<open>Frames on a session\<close>

definition pong_frame :: frame where
  "pong_frame = \<lparr>f_id = 0, f_kind = Pong, f_data = []\<rparr>"

definition ping_frame :: frame where
  "ping_frame = \<lparr>f_id = 0, f_kind = Ping, f_data = []\<rparr>"

text \<open>How both handshakes report an error of the Noise session.\<close>

definition noise_failed :: "crypto_error \<Rightarrow> transport_error" where
  "noise_failed e = NoiseHandshakeFailed (crypto_error_to_string e)"

text \<open>One frame out; \<open>False\<close> where the code sets its error flag.\<close>

definition send_frame :: "('h, 't) snow \<Rightarrow> postcard \<Rightarrow> ('w, 'm) websocket \<Rightarrow> (byte list \<Rightarrow> 'm) \<Rightarrow>
    ('h, 't) noise_session \<times> 'w \<Rightarrow> frame \<Rightarrow> bool \<times> ('h, 't) noise_session \<times> 'w" where
  "send_frame sn pc sk bin nw f =
     (case encode_frame pc f of
        Inl e \<Rightarrow> (False, nw)
      | Inr encoded \<Rightarrow>
          (case encrypt_chunked sn (fst nw) encoded of
             (Inl e, ns) \<Rightarrow> (False, ns, snd nw)
           | (Inr packets, ns) \<Rightarrow>
               (case send_chunks sk bin (snd nw) packets of (ok, w) \<Rightarrow> (ok, ns, w))))"

text \<open>
  One packet in.  The three ways to fail are kept apart because the callers report them
  differently.
\<close>

datatype recv_error = RecvNoise crypto_error | RecvFrame transport_error | RecvDecode transport_error

definition receive_packet :: "('h, 't) snow \<Rightarrow> postcard \<Rightarrow> nat \<Rightarrow>
    ('h, 't) noise_session \<times> frame_accumulator \<Rightarrow> byte list \<Rightarrow>
    (recv_error + frame option) \<times> ('h, 't) noise_session \<times> frame_accumulator" where
  "receive_packet sn pc max_bytes na data =
     (case decrypt_packet sn (fst na) data of
        (Inl e, ns) \<Rightarrow> (Inl (RecvNoise e), ns, snd na)
      | (Inr decrypted, ns) \<Rightarrow>
          (case feed (snd na) decrypted max_bytes of
             (Inl e, acc) \<Rightarrow> (Inl (RecvFrame e), ns, acc)
           | (Inr None, acc) \<Rightarrow> (Inr None, ns, acc)
           | (Inr (Some frame_bytes), acc) \<Rightarrow>
               (case decode_frame pc frame_bytes of
                  Inl e \<Rightarrow> (Inl (RecvDecode e), ns, acc)
                | Inr f \<Rightarrow> (Inr (Some f), ns, acc))))"

lemma receive_packet_noise:
  "receive_packet sn pc m na data = (Inl (RecvNoise e), na') \<Longrightarrow> ns_state (fst na') = None"
  by (auto simp: receive_packet_def decrypt_packet_def split: prod.splits sum.splits option.splits
      dest: read_message_Inl)

lemma receive_packet_acc_wf:
  "receive_packet sn pc m na data = (Inr r, na') \<Longrightarrow> acc_wf m (snd na) \<Longrightarrow> acc_wf m (snd na')"
  by (auto simp: receive_packet_def split: prod.splits sum.splits option.splits dest: feed_wf)

section \<open>Sealing and opening frames\<close>

definition pack_frame :: "('h, 't) snow \<Rightarrow> postcard \<Rightarrow> ('h, 't) noise_session \<Rightarrow> frame \<Rightarrow>
    (recv_error + byte list list) \<times> ('h, 't) noise_session" where
  "pack_frame sn pc ns f =
     (case encode_frame pc f of
        Inl e \<Rightarrow> (Inl (RecvFrame e), ns)
      | Inr encoded \<Rightarrow> (case encrypt_chunked sn ns encoded of (r, ns1) \<Rightarrow> (map_err RecvNoise r, ns1)))"

lemma send_frame_pack:
  "pack_frame sn pc ns f = (Inr packets, ns') \<Longrightarrow>
   send_frame sn pc sk bin (ns, w) f = (case send_chunks sk bin w packets of (ok, w') \<Rightarrow> (ok, ns', w'))"
  by (auto simp: pack_frame_def send_frame_def split: sum.splits prod.splits)

definition frame_cost :: "postcard \<Rightarrow> frame \<Rightarrow> nat" where
  "frame_cost pc f =
     (case encode_frame pc f of Inl e \<Rightarrow> 0 | Inr encoded \<Rightarrow> (length encoded + 65518) div 65519)"

lemma receive_decrypted:
  "try_map (decrypt_packet sn) ns packets = (Inr cs, ns') \<Longrightarrow>
   feed_chunks (\<lambda>a c. feed a c m) acc cs = (Inr ps, acc') \<Longrightarrow>
   map (decode_frame pc) ps = map Inr fs \<Longrightarrow>
   feed_chunks (receive_packet sn pc m) (ns, acc) packets = (Inr fs, ns', acc')"
proof (induction packets arbitrary: ns acc cs ps fs)
  case (Cons pk packets)
  from Cons.prems(1) obtain c cs1 ns1 where dec: "decrypt_packet sn ns pk = (Inr c, ns1)"
    "try_map (decrypt_packet sn) ns1 packets = (Inr cs1, ns')" "cs = c # cs1"
    by (auto split: prod.splits sum.splits)
  from Cons.prems(2) dec(3) obtain out acc1 ps1 where fd: "feed acc c m = (Inr out, acc1)"
    "feed_chunks (\<lambda>a c. feed a c m) acc1 cs1 = (Inr ps1, acc')"
    "ps = (case out of None \<Rightarrow> ps1 | Some p \<Rightarrow> p # ps1)"
    by (auto split: prod.splits sum.splits)
  show ?case
  proof (cases out)
    case None
    with Cons.IH [OF dec(2) fd(2)] Cons.prems(3) fd dec(1) show ?thesis by (simp add: receive_packet_def)
  next
    case (Some p)
    with fd(3) Cons.prems(3) obtain f fs1 where "fs = f # fs1" "decode_frame pc p = Inr f"
      "map (decode_frame pc) ps1 = map Inr fs1" by (cases fs) auto
    with Cons.IH [OF dec(2) fd(2)] fd dec(1) Some show ?thesis by (simp add: receive_packet_def)
  qed
qed simp

section \<open>The frame contract of a session\<close>

text \<open>
  What a user of a session relies on: as long as the pair is good for the packets a frame
  costs, a frame that is packed on one side comes out of the receive path of the other, and
  the pair stays in step; and it does not come out before its last packet.
\<close>

locale frame_channel =
  fixes pack :: "'s \<Rightarrow> 'f \<Rightarrow> ('e + byte list list) \<times> 's"
    and recv :: "'r \<Rightarrow> byte list \<Rightarrow> ('d + 'f option) \<times> 'r"
    and linked :: "nat \<Rightarrow> 's \<Rightarrow> 'r \<Rightarrow> bool"
    and fits :: "'f \<Rightarrow> bool"
    and cost :: "'f \<Rightarrow> nat"
  assumes pack_recv: "linked (cost f + k) s r \<Longrightarrow> fits f \<Longrightarrow>
      \<exists>ps s' r'. pack s f = (Inr ps, s') \<and> feed_chunks recv r ps = (Inr [f], r') \<and>
        linked k s' r' \<and> length ps = cost f"
    and recv_early: "linked (cost f + k) s r \<Longrightarrow> fits f \<Longrightarrow> pack s f = (Inr (ps @ qs), s') \<Longrightarrow> qs \<noteq> [] \<Longrightarrow>
      \<exists>r'. feed_chunks recv r ps = (Inr [], r')"
begin

lemma pack_recv_all:
  assumes "linked (sum_list (map cost fs) + k) s r" "\<forall>f \<in> set fs. fits f"
  shows "\<exists>pss s' r'. try_map pack s fs = (Inr pss, s') \<and>
    feed_chunks recv r (concat pss) = (Inr fs, r') \<and> linked k s' r'"
  using assms
proof (induction fs arbitrary: s r)
  case (Cons f fs)
  then have "linked (cost f + (sum_list (map cost fs) + k)) s r" "fits f" by (simp_all add: ac_simps)
  from pack_recv [OF this] obtain ps s1 r1 where 1: "pack s f = (Inr ps, s1)"
    "feed_chunks recv r ps = (Inr [f], r1)" "linked (sum_list (map cost fs) + k) s1 r1" by blast
  from Cons.IH [OF 1(3)] Cons.prems(2) obtain pss s' r' where 2: "try_map pack s1 fs = (Inr pss, s')"
    "feed_chunks recv r1 (concat pss) = (Inr fs, r')" "linked k s' r'" by auto
  from feed_chunks_append [OF 1(2) 2(2)] 1(1) 2(1,3) show ?case
    by (intro exI [of _ "ps # pss"]) simp
qed auto

end

definition frame_linked :: "('h, 't) snow \<Rightarrow> (nat \<Rightarrow> 't \<Rightarrow> 't \<Rightarrow> bool) \<Rightarrow> postcard \<Rightarrow> nat \<Rightarrow>
    ('h, 't) noise_session \<Rightarrow> ('h, 't) noise_session \<times> frame_accumulator \<Rightarrow> bool" where
  "frame_linked sn pair pc k ns na \<longleftrightarrow>
     postcard_ok pc \<and> noise_paired sn pair k ns (fst na) \<and> snd na = acc_new"

lemma pack_frame_decrypts:
  assumes "frame_linked sn pair pc (frame_cost pc f + k) ns na" "frame_fits pc m f"
  shows "\<exists>packets ns' nr' cs p. pack_frame sn pc ns f = (Inr packets, ns') \<and>
    try_map (decrypt_packet sn) (fst na) packets = (Inr cs, nr') \<and> frame_split m p cs \<and> decode_frame pc p = Inr f \<and>
    length packets = frame_cost pc f \<and> noise_paired sn pair k ns' nr'"
proof -
  from assms(1) have ok: "postcard_ok pc"
    and paired: "noise_paired sn pair (frame_cost pc f + k) ns (fst na)" by (simp_all add: frame_linked_def)
  have "4 \<le> max_chunk_plain" by (simp add: max_chunk_plain_def)
  from assms(2) ok this obtain bs p where bs: "encode_frame pc f = Inr bs"
    "frame_split m p (chunks max_chunk_plain bs)" "decode_frame pc p = Inr f" by (rule frame_fits_split)
  have cost: "length (chunks max_chunk_plain bs) = frame_cost pc f"
    using length_chunks [of max_chunk_plain bs] by (simp add: max_chunk_plain_def frame_cost_def bs(1))
  from encrypt_chunked_paired [OF paired, of bs] cost obtain packets ns' nr' where
    enc: "encrypt_chunked sn ns bs = (Inr packets, ns')"
      "try_map (decrypt_packet sn) (fst na) packets = (Inr (chunks max_chunk_plain bs), nr')"
      "noise_paired sn pair (frame_cost pc f + k - length packets) ns' nr'"
      "map length packets = map (\<lambda>c. length c + 16) (chunks max_chunk_plain bs)" by auto
  from enc(4) cost have len: "length packets = frame_cost pc f" by (metis length_map)
  with enc bs show ?thesis
    by (intro exI [of _ packets] exI [of _ ns'] exI [of _ nr'] exI [of _ "chunks max_chunk_plain bs"] exI [of _ p])
      (simp add: pack_frame_def)
qed

interpretation wire: frame_channel "pack_frame sn pc" "receive_packet sn pc m" "frame_linked sn pair pc"
    "frame_fits pc m" "frame_cost pc"
  for sn :: "('h, 't) snow" and pc m pair
proof unfold_locales
  fix f k and ns :: "('h, 't) noise_session" and na :: "('h, 't) noise_session \<times> frame_accumulator"
  assume link: "frame_linked sn pair pc (frame_cost pc f + k) ns na" and fits: "frame_fits pc m f"
  from pack_frame_decrypts [OF link fits] obtain packets ns' nr' cs p where
    pk: "pack_frame sn pc ns f = (Inr packets, ns')" "try_map (decrypt_packet sn) (fst na) packets = (Inr cs, nr')"
    "frame_split m p cs" "decode_frame pc p = Inr f" "length packets = frame_cost pc f" "noise_paired sn pair k ns' nr'" by blast
  have acc: "snd na = acc_new" "postcard_ok pc" using link by (simp_all add: frame_linked_def)
  from receive_decrypted [OF pk(2) frame_split_complete [OF pk(3)], of pc "[f]"] pk(4)
  have "feed_chunks (receive_packet sn pc m) na packets = (Inr [f], nr', acc_new)"
    using acc by (cases na) simp
  with pk acc show "\<exists>ps s' r'. pack_frame sn pc ns f = (Inr ps, s') \<and>
      feed_chunks (receive_packet sn pc m) na ps = (Inr [f], r') \<and>
      frame_linked sn pair pc k s' r' \<and> length ps = frame_cost pc f"
    by (intro exI [of _ packets] exI [of _ ns'] exI [of _ "(nr', acc_new)"]) (simp add: frame_linked_def)
next
  fix f k and ns s' :: "('h, 't) noise_session" and na :: "('h, 't) noise_session \<times> frame_accumulator" and ps qs
  assume link: "frame_linked sn pair pc (frame_cost pc f + k) ns na" and fits: "frame_fits pc m f"
    and split: "pack_frame sn pc ns f = (Inr (ps @ qs), s')" "qs \<noteq> []"
  from pack_frame_decrypts [OF link fits] split(1) obtain nr' cs p where
    dec: "try_map (decrypt_packet sn) (fst na) (ps @ qs) = (Inr cs, nr')" "frame_split m p cs" by auto
  then obtain cs1 cs2 n1 where cs: "try_map (decrypt_packet sn) (fst na) ps = (Inr cs1, n1)"
    "try_map (decrypt_packet sn) n1 qs = (Inr cs2, nr')" "cs = cs1 @ cs2"
    by (auto simp: try_map_append split: prod.splits sum.splits)
  with split(2) try_map_length [OF cs(2)] have "cs2 \<noteq> []" by auto
  from frame_split_early [OF dec(2) [unfolded cs(3)] this] obtain a where
    "feed_chunks (\<lambda>a c. feed a c m) acc_new cs1 = (Inr [], a)" by blast
  from receive_decrypted [OF cs(1) this, of pc "[]"] link
  show "\<exists>r'. feed_chunks (receive_packet sn pc m) na ps = (Inr [], r')"
    by (cases na) (auto simp: frame_linked_def)
qed

section \<open>Sending on a socket that works\<close>

text \<open>A socket whose sends succeed and whose log of sent messages is observable.\<close>

definition sends_ok :: "('w, 'm) websocket \<Rightarrow> ('w \<Rightarrow> 'm list) \<Rightarrow> bool" where
  "sends_ok sk sent \<longleftrightarrow> (\<forall>w m. \<exists>w'. ws_send sk w m = (Inr (), w') \<and> sent w' = sent w @ [m])"

lemma send_chunks_ok:
  assumes "sends_ok sk sent"
  shows "\<exists>w'. send_chunks sk bin w cs = (True, w') \<and> sent w' = sent w @ map bin cs"
proof (induction cs arbitrary: w)
  case (Cons c cs)
  from assms obtain w1 where "ws_send sk w (bin c) = (Inr (), w1)" "sent w1 = sent w @ [bin c]"
    by (auto simp: sends_ok_def)
  with Cons.IH [of w1] show ?case by auto
qed simp

text \<open>
  A scripted socket: what it will deliver, and what was sent on it.  It is what a connection
  looks like over a network that loses and reorders nothing.
\<close>

definition script_socket :: "((rstr + 'm) list \<times> 'm list, 'm) websocket" where
  "script_socket = \<lparr>
     ws_next = (\<lambda>(inp, out). case inp of [] \<Rightarrow> (None, [], out) | x # xs \<Rightarrow> (Some x, xs, out)),
     ws_send = (\<lambda>(inp, out) m. (Inr (), inp, out @ [m])),
     ws_close = (\<lambda>(inp, out). (Inr (), [], out))\<rparr>"

lemma script_next [simp]:
  "ws_next script_socket ([], out) = (None, [], out)"
  "ws_next script_socket (x # xs, out) = (Some x, xs, out)"
  by (simp_all add: script_socket_def)

lemma script_send [simp]: "ws_send script_socket (inp, out) m = (Inr (), inp, out @ [m])"
  by (simp add: script_socket_def)

lemma script_close [simp]: "ws_close script_socket (inp, out) = (Inr (), [], out)"
  by (simp add: script_socket_def)

lemma script_sends_ok: "sends_ok script_socket snd"
  by (auto simp: sends_ok_def)

lemma send_chunks_script: "send_chunks script_socket bin (inp, out) cs = (True, inp, out @ map bin cs)"
  by (induction cs arbitrary: out) simp_all

text \<open>Sending leaves what is still to be read.\<close>

lemma send_frame_script_input:
  "send_frame sn pc script_socket bin (ns, w) f = (ok, ns', w') \<Longrightarrow> fst w' = fst w"
  by (cases w) (auto simp: send_frame_def send_chunks_script split: sum.splits prod.splits)

lemma send_frame_script:
  "pack_frame sn pc ns f = (Inr ps, ns') \<Longrightarrow>
   send_frame sn pc script_socket bin (ns, inp, out) f = (True, ns', inp, out @ map bin ps)"
  by (simp add: send_frame_pack send_chunks_script)

section \<open>Both directions of a session\<close>

text \<open>
  Two transport states good for so many packets in each direction.  The two directions of a
  Noise session use separate keys and counters, so that traffic one way leaves the other alone.
\<close>

definition duplex_linked :: "('h, 't) snow \<Rightarrow> (nat \<Rightarrow> nat \<Rightarrow> 't \<Rightarrow> 't \<Rightarrow> bool) \<Rightarrow> postcard \<Rightarrow> nat \<Rightarrow> nat \<Rightarrow>
    ('h, 't) noise_session \<times> frame_accumulator \<Rightarrow> ('h, 't) noise_session \<times> frame_accumulator \<Rightarrow> bool" where
  "duplex_linked sn dup pc n m a b \<longleftrightarrow>
     postcard_ok pc \<and> snd a = acc_new \<and> snd b = acc_new \<and>
     (\<forall>j. snow_transport_ok sn (\<lambda>k s r. dup k j s r)) \<and> (\<forall>j. snow_transport_ok sn (\<lambda>k s r. dup j k r s)) \<and>
     (\<exists>s r. ns_state (fst a) = Some (Transport s) \<and> ns_state (fst b) = Some (Transport r) \<and> dup n m s r)"

lemma duplex_forth:
  "duplex_linked sn dup pc n m a b \<Longrightarrow> frame_linked sn (\<lambda>k s r. dup k m s r) pc n (fst a) b"
  by (auto simp: duplex_linked_def frame_linked_def noise_paired_def)

lemma duplex_back:
  "duplex_linked sn dup pc n m a b \<Longrightarrow> frame_linked sn (\<lambda>k s r. dup n k r s) pc m (fst b) a"
  by (auto simp: duplex_linked_def frame_linked_def noise_paired_def)

lemma duplex_forth_step:
  "duplex_linked sn dup pc n m a b \<Longrightarrow> frame_linked sn (\<lambda>k s r. dup k m s r) pc n' ns b' \<Longrightarrow>
   duplex_linked sn dup pc n' m (ns, snd a) b'"
  by (auto simp: duplex_linked_def frame_linked_def noise_paired_def)

lemma duplex_back_step:
  "duplex_linked sn dup pc n m a b \<Longrightarrow> frame_linked sn (\<lambda>k s r. dup n k r s) pc m' ns a' \<Longrightarrow>
   duplex_linked sn dup pc n m' a' (ns, snd b)"
  by (auto simp: duplex_linked_def frame_linked_def noise_paired_def)

definition sample_dup :: "nat \<Rightarrow> nat \<Rightarrow> nat \<Rightarrow> nat \<Rightarrow> bool" where
  "sample_dup k j s r \<longleftrightarrow> k + j \<le> s \<and> s = r"

lemma sample_dup_ok:
  "snow_transport_ok sample_snow (\<lambda>k s r. sample_dup k j s r)" "snow_transport_ok sample_snow (\<lambda>k s r. sample_dup j k r s)"
  by (auto simp: snow_transport_ok_def sample_snow_def sample_dup_def)

end
