(* ===== verification/WsStream.thy ===== *)
theory WsStream
  imports Wire
begin

text \<open>
  \<open>src/ws/client/stream.rs\<close>: the client's view of a WebSocket, once over tungstenite (native)
  and once over gloo (wasm).

  A poll of the inner stream is given; the result says whether the method woke its own task,
  and what it returned.
\<close>

datatype client_message = Text rstr | Binary "byte list"

datatype gloo_message = GText rstr | GBytes "byte list"

datatype 'a poll = Ready 'a | PollPending

definition native_poll_next :: "(rstr + ws_message) option poll \<Rightarrow> bool \<times> (rstr + client_message) option poll" where
  "native_poll_next inner =
     (case inner of
        Ready (Some (Inr msg)) \<Rightarrow>
          (case msg of
             MText t \<Rightarrow> (False, Ready (Some (Inr (Text t))))
           | MBinary b \<Rightarrow> (False, Ready (Some (Inr (Binary b))))
           | _ \<Rightarrow> (True, PollPending))
      | Ready (Some (Inl e)) \<Rightarrow> (False, Ready (Some (Inl e)))
      | Ready None \<Rightarrow> (False, Ready None)
      | PollPending \<Rightarrow> (False, PollPending))"

fun native_message :: "client_message \<Rightarrow> ws_message" where
  "native_message (Text t) = MText t"
| "native_message (Binary b) = MBinary b"

definition wasm_poll_next :: "(rstr + gloo_message) option poll \<Rightarrow> bool \<times> (rstr + client_message) option poll" where
  "wasm_poll_next inner =
     (case inner of
        Ready (Some (Inr msg)) \<Rightarrow>
          (case msg of
             GText t \<Rightarrow> (False, Ready (Some (Inr (Text t))))
           | GBytes b \<Rightarrow> (False, Ready (Some (Inr (Binary b)))))
      | Ready (Some (Inl e)) \<Rightarrow> (False, Ready (Some (Inl e)))
      | Ready None \<Rightarrow> (False, Ready None)
      | PollPending \<Rightarrow> (False, PollPending))"

fun wasm_message :: "client_message \<Rightarrow> gloo_message" where
  "wasm_message (Text t) = GText t"
| "wasm_message (Binary b) = GBytes b"

section \<open>Awaiting the next message\<close>

text \<open>
  \<open>ws.next().await\<close> polls until the result is ready.  It polls again when the inner stream
  wakes the task or \<open>poll_next\<close> did; a Pending that nobody wakes would hang.  On a given
  sequence of inner polls: the first result, and the polls not used.
\<close>

fun await_next :: "('i poll \<Rightarrow> bool \<times> 'o poll) \<Rightarrow> 'i poll list \<Rightarrow> 'o option \<times> 'i poll list" where
  "await_next pn [] = (None, [])"
| "await_next pn (p # ps) =
     (case pn p of
        (woken, Ready x) \<Rightarrow> (Some x, ps)
      | (woken, PollPending) \<Rightarrow> if woken \<or> p = PollPending then await_next pn ps else (None, ps))"

text \<open>What the client sees of the inner stream's items.\<close>

fun native_item :: "(rstr + ws_message) option \<Rightarrow> (rstr + client_message) option option" where
  "native_item None = Some None"
| "native_item (Some (Inl e)) = Some (Some (Inl e))"
| "native_item (Some (Inr (MText t))) = Some (Some (Inr (Text t)))"
| "native_item (Some (Inr (MBinary b))) = Some (Some (Inr (Binary b)))"
| "native_item (Some (Inr _)) = None"

lemma native_poll_ready:
  "native_poll_next (Ready i) = (case native_item i of None \<Rightarrow> (True, PollPending) | Some x \<Rightarrow> (False, Ready x))"
  by (cases i rule: native_item.cases) (simp_all add: native_poll_next_def)

lemma native_poll_pending: "native_poll_next PollPending = (False, PollPending)"
  by (simp add: native_poll_next_def)

fun ready_items :: "'i poll list \<Rightarrow> 'i list" where
  "ready_items [] = []"
| "ready_items (Ready i # ps) = i # ready_items ps"
| "ready_items (PollPending # ps) = ready_items ps"

fun await_all :: "('i poll \<Rightarrow> bool \<times> 'o poll) \<Rightarrow> nat \<Rightarrow> 'i poll list \<Rightarrow> 'o list" where
  "await_all pn 0 ps = []"
| "await_all pn (Suc n) ps =
     (case await_next pn ps of (None, ps1) \<Rightarrow> [] | (Some x, ps1) \<Rightarrow> x # await_all pn n ps1)"

lemma await_next_native:
  "await_next native_poll_next ps =
     (case ps of
        [] \<Rightarrow> (None, [])
      | Ready i # ps1 \<Rightarrow> (case native_item i of Some x \<Rightarrow> (Some x, ps1) | None \<Rightarrow> await_next native_poll_next ps1)
      | PollPending # ps1 \<Rightarrow> await_next native_poll_next ps1)"
  by (cases ps) (auto simp: native_poll_ready native_poll_pending split: poll.splits option.splits)

lemma await_next_length: "await_next pn ps = (r, ps1) \<Longrightarrow> length ps1 \<le> length ps"
  by (induction ps) (fastforce split: prod.splits poll.splits if_splits)+

lemma await_next_items:
  "case await_next native_poll_next ps of
     (None, ps1) \<Rightarrow> List.map_filter native_item (ready_items ps) = []
   | (Some x, ps1) \<Rightarrow> List.map_filter native_item (ready_items ps) = x # List.map_filter native_item (ready_items ps1) \<and>
       length ps1 < length ps"
proof (induction ps)
  case Nil
  then show ?case by (simp add: List.map_filter_simps)
next
  case (Cons p ps)
  then show ?case
    by (subst await_next_native)
      (auto simp: List.map_filter_simps split: prod.splits option.splits poll.splits)
qed

section \<open>Opening, closing and sending\<close>

text \<open>
  What the inner stream offers, each method awaited: \<open>poll_ready\<close>, \<open>start_send\<close>, \<open>poll_flush\<close>,
  \<open>poll_close\<close> of its \<open>Sink\<close>, and \<open>close\<close>.  Errors are already printed.
\<close>

record ('w, 'm) sink_ops =
  si_ready :: "'w \<Rightarrow> (rstr + unit) \<times> 'w"
  si_start_send :: "'w \<Rightarrow> 'm \<Rightarrow> (rstr + unit) \<times> 'w"
  si_flush :: "'w \<Rightarrow> (rstr + unit) \<times> 'w"
  si_poll_close :: "'w \<Rightarrow> (rstr + unit) \<times> 'w"

definition native_connect :: "(rstr \<Rightarrow> rstr + 'w \<times> 'r) \<Rightarrow> rstr \<Rightarrow> rstr + 'w" where
  "native_connect connect_async url =
     (case connect_async url of Inl e \<Rightarrow> Inl e | Inr (ws_stream, _) \<Rightarrow> Inr ws_stream)"

definition native_close :: "('w \<Rightarrow> (rstr + unit) \<times> 'w) \<Rightarrow> 'w \<Rightarrow> (rstr + unit) \<times> 'w" where
  "native_close inner_close w = inner_close w"

definition native_sink :: "('w, ws_message) sink_ops \<Rightarrow> ('w, client_message) sink_ops" where
  "native_sink inner =
     \<lparr>si_ready = si_ready inner,
      si_start_send = (\<lambda>w item. si_start_send inner w (native_message item)),
      si_flush = si_flush inner,
      si_poll_close = si_poll_close inner\<rparr>"

definition wasm_connect :: "(rstr \<Rightarrow> rstr + 'w) \<Rightarrow> rstr \<Rightarrow> rstr + 'w" where
  "wasm_connect open_socket url = (case open_socket url of Inr ws \<Rightarrow> Inr ws | Inl e \<Rightarrow> Inl e)"

text \<open>On wasm \<open>close\<close> succeeds without doing anything.\<close>

definition wasm_close :: "'w \<Rightarrow> (rstr + unit) \<times> 'w" where
  "wasm_close w = (Inr (), w)"

definition wasm_sink :: "('w, gloo_message) sink_ops \<Rightarrow> ('w, client_message) sink_ops" where
  "wasm_sink inner =
     \<lparr>si_ready = si_ready inner,
      si_start_send = (\<lambda>w item. si_start_send inner w (wasm_message item)),
      si_flush = si_flush inner,
      si_poll_close = si_poll_close inner\<rparr>"

text \<open>\<open>SinkExt::send\<close>: wait until ready, start the send, flush; the first error ends it.\<close>

definition sink_send :: "('w, 'm) sink_ops \<Rightarrow> 'w \<Rightarrow> 'm \<Rightarrow> (rstr + unit) \<times> 'w" where
  "sink_send sk w m =
     (case si_ready sk w of
        (Inl e, w1) \<Rightarrow> (Inl e, w1)
      | (Inr _, w1) \<Rightarrow>
          (case si_start_send sk w1 m of
             (Inl e, w2) \<Rightarrow> (Inl e, w2)
           | (Inr _, w2) \<Rightarrow> si_flush sk w2))"

text \<open>The socket the client's loops use, over either inner stream.\<close>

definition native_websocket :: "('w \<Rightarrow> (rstr + client_message) option \<times> 'w) \<Rightarrow> ('w \<Rightarrow> (rstr + unit) \<times> 'w) \<Rightarrow>
    ('w, ws_message) sink_ops \<Rightarrow> ('w, client_message) websocket" where
  "native_websocket nx inner_close inner =
     \<lparr>ws_next = nx, ws_send = sink_send (native_sink inner), ws_close = native_close inner_close\<rparr>"

definition wasm_websocket :: "('w \<Rightarrow> (rstr + client_message) option \<times> 'w) \<Rightarrow>
    ('w, gloo_message) sink_ops \<Rightarrow> ('w, client_message) websocket" where
  "wasm_websocket nx inner = \<lparr>ws_next = nx, ws_send = sink_send (wasm_sink inner), ws_close = wasm_close\<rparr>"

text \<open>
  A sink that works: it gets ready and flushes without touching what was sent, and a started
  send appends its message.
\<close>

definition sink_ok :: "('w, 'm) sink_ops \<Rightarrow> ('w \<Rightarrow> 'm list) \<Rightarrow> bool" where
  "sink_ok sk sent \<longleftrightarrow>
     (\<forall>w. \<exists>w'. si_ready sk w = (Inr (), w') \<and> sent w' = sent w) \<and>
     (\<forall>w m. \<exists>w'. si_start_send sk w m = (Inr (), w') \<and> sent w' = sent w @ [m]) \<and>
     (\<forall>w. \<exists>w'. si_flush sk w = (Inr (), w') \<and> sent w' = sent w)"

lemma sink_send_logs:
  assumes "sink_ok sk sent"
  shows "\<exists>w'. sink_send sk w m = (Inr (), w') \<and> sent w' = sent w @ [m]"
proof -
  from assms obtain w1 where 1: "si_ready sk w = (Inr (), w1)" "sent w1 = sent w" unfolding sink_ok_def by blast
  from assms obtain w2 where 2: "si_start_send sk w1 m = (Inr (), w2)" "sent w2 = sent w1 @ [m]" unfolding sink_ok_def by blast
  from assms obtain w3 where "si_flush sk w2 = (Inr (), w3)" "sent w3 = sent w2" unfolding sink_ok_def by blast
  with 1 2 show ?thesis by (simp add: sink_send_def)
qed

fun client_view :: "ws_message \<Rightarrow> client_message list" where
  "client_view (MText t) = [Text t]"
| "client_view (MBinary b) = [Binary b]"
| "client_view _ = []"

lemma client_view_native [simp]: "client_view (native_message m) = [m]"
  by (cases m) simp_all

text \<open>Over a working inner stream every send of the client goes through, on either platform.\<close>

lemma native_sends_ok:
  assumes "sink_ok inner sent"
  shows "sends_ok (native_websocket nx cl inner) (\<lambda>w. concat (map client_view (sent w)))"
proof -
  have native: "sink_send (native_sink inner) w m = sink_send inner w (native_message m)" for w m
    by (simp add: sink_send_def native_sink_def split: prod.splits sum.splits)
  show ?thesis
    unfolding sends_ok_def
  proof (intro allI)
    fix w m
    from sink_send_logs [OF assms, of w "native_message m"] show "\<exists>w'. ws_send (native_websocket nx cl inner) w m = (Inr (), w') \<and>
        concat (map client_view (sent w')) = concat (map client_view (sent w)) @ [m]"
      by (auto simp: native_websocket_def native)
  qed
qed

section \<open>Properties\<close>

text \<open>
  C34. Awaiting messages on the client's stream yields, in order and without losing or
  inventing one, exactly the texts, binaries, errors and ends the socket delivers: control
  messages are skipped without the task hanging, whatever polls came back pending.
\<close>

theorem stream_yields_data_messages:
  "length ps \<le> n \<Longrightarrow> await_all native_poll_next n ps = List.map_filter native_item (ready_items ps)"
proof (induction n arbitrary: ps)
  case (Suc n)
  obtain r ps1 where step: "await_next native_poll_next ps = (r, ps1)" by fastforce
  with await_next_items [of ps] Suc show ?case by (cases r) auto
qed (simp add: List.map_filter_simps)

theorem stream_yields_data_messages_witness:
  "await_all native_poll_next 5 [Ready (Some (Inr (MPing [1]))), PollPending, Ready (Some (Inr (MText [65]))), Ready None] =
     [Some (Inr (Text [65])), None]"
  using stream_yields_data_messages
    [of "[Ready (Some (Inr (MPing [1]))), PollPending, Ready (Some (Inr (MText [65]))), Ready None]" 5]
  by (simp add: List.map_filter_simps)

end
