(* ===== verification/Connect.thy ===== *)
theory Connect
  imports WsStream State
begin

text \<open>
  \<open>src/ws/client/connection_loop.rs\<close>, the steps between opening a WebSocket and going online:
  the version exchange, the initiator's side of the Noise handshake, and authentication.
  The states they publish are part of their results.
\<close>

section \<open>Version exchange\<close>

text \<open>
  \<open>VersionRejected\<close> is the branch that publishes \<open>VersionMismatch\<close>, clears the pending
  requests and waits for a command; the wait is a phase of the connection loop.
\<close>

datatype version_result =
    VersionOk
  | VersionError connection_state
  | VersionRejected connection_state

definition client_hello :: "ws_client_config \<Rightarrow> rstr" where
  "client_hello cfg = cc_protocol_name cfg @ lit '' '' @ cc_protocol_version cfg"

definition rejected_state :: "ws_client_config \<Rightarrow> rstr \<Rightarrow> connection_state" where
  "rejected_state cfg reply =
     VersionMismatch (cc_protocol_version cfg)
       (trim (case strip_prefix (lit ''PROTOCOL_REJECTED '') reply of None \<Rightarrow> lit ''unknown'' | Some v \<Rightarrow> v))"

definition client_version_handshake :: "('w, client_message) websocket \<Rightarrow> ws_client_config \<Rightarrow> 'w \<Rightarrow>
    version_result \<times> 'w" where
  "client_version_handshake sk cfg ws =
     (case ws_send sk ws (Text (client_hello cfg)) of
        (Inl e, w1) \<Rightarrow> (VersionError (Error e), w1)
      | (Inr _, w1) \<Rightarrow>
          (case ws_next sk w1 of
             (Some (Inr (Text reply)), w2) \<Rightarrow>
               (if contains reply (lit ''PROTOCOL_ACCEPTED'') then (VersionOk, w2)
                else if contains reply (lit ''PROTOCOL_REJECTED'') then (VersionRejected (rejected_state cfg reply), w2)
                else (VersionError (Error (lit ''Invalid handshake reply'')), w2))
           | (Some (Inl e), w2) \<Rightarrow> (VersionError (Error e), w2)
           | (None, w2) \<Rightarrow> (VersionError (Error (lit ''Connection closed during handshake'')), w2)
           | (_, w2) \<Rightarrow> (VersionError (Error (lit ''Invalid handshake reply'')), w2)))"

section \<open>Noise handshake\<close>

definition client_noise_handshake :: "('h, 't) snow \<Rightarrow> ('p, 'b, 'h) snow_builder \<Rightarrow>
    ('w, client_message) websocket \<Rightarrow> ws_client_config \<Rightarrow> 'w \<Rightarrow>
    (transport_error + ('h, 't) noise_session) \<times> 'w" where
  "client_noise_handshake sn sb sk cfg ws =
     (case noise_client sb (cc_noise_server_key cfg) of
        Inl e \<Rightarrow> (Inl (noise_failed e), ws)
      | Inr noise0 \<Rightarrow>
     (case write_message sn noise0 [] 65535 of
        (Inl e, _) \<Rightarrow> (Inl (noise_failed e), ws)
      | (Inr out1, noise1) \<Rightarrow>
     (case ws_send sk ws (Binary out1) of
        (Inl e, w1) \<Rightarrow> (Inl (ConnectionFailed e), w1)
      | (Inr _, w1) \<Rightarrow>
     (case ws_next sk w1 of
        (Some (Inr (Binary data)), w2) \<Rightarrow>
     (case read_message sn noise1 data 65535 of
        (Inl e, _) \<Rightarrow> (Inl (noise_failed e), w2)
      | (Inr _, noise2) \<Rightarrow>
     (case write_message sn noise2 [] 65535 of
        (Inl e, _) \<Rightarrow> (Inl (noise_failed e), w2)
      | (Inr out3, noise3) \<Rightarrow>
     (case ws_send sk w2 (Binary out3) of
        (Inl e, w3) \<Rightarrow> (Inl (ConnectionFailed e), w3)
      | (Inr _, w3) \<Rightarrow>
          if \<not> is_finished noise3 then (Inl (NoiseHandshakeFailed (lit ''Handshake not finished'')), w3)
          else (Inr noise3, w3))))
      | (_, w2) \<Rightarrow> (Inl ConnectionClosed, w2)))))"

section \<open>One frame\<close>

text \<open>
  \<open>recv_one_frame\<close> under a timeout: the budget is the number of messages that arrive before
  the timer fires, and \<open>None\<close> is that it fired.
\<close>

fun recv_one_frame :: "('h, 't) snow \<Rightarrow> postcard \<Rightarrow> ('w, client_message) websocket \<Rightarrow> nat \<Rightarrow> nat \<Rightarrow>
    (('h, 't) noise_session \<times> frame_accumulator) \<times> 'w \<Rightarrow>
    (transport_error + frame) option \<times> (('h, 't) noise_session \<times> frame_accumulator) \<times> 'w" where
  "recv_one_frame sn pc sk max_bytes 0 (na, ws) = (None, na, ws)"
| "recv_one_frame sn pc sk max_bytes (Suc n) (na, ws) =
     (case ws_next sk ws of
        (Some (Inr (Binary data)), w) \<Rightarrow>
          (case receive_packet sn pc max_bytes na data of
             (Inl (RecvNoise e), na1) \<Rightarrow> (Some (Inl (NoiseDecryptFailed (crypto_error_to_string e))), na1, w)
           | (Inl (RecvFrame e), na1) \<Rightarrow> (Some (Inl e), na1, w)
           | (Inl (RecvDecode e), na1) \<Rightarrow> (Some (Inl e), na1, w)
           | (Inr (Some f), na1) \<Rightarrow> (Some (Inr f), na1, w)
           | (Inr None, na1) \<Rightarrow> recv_one_frame sn pc sk max_bytes n (na1, w))
      | (_, w) \<Rightarrow> (Some (Inl ConnectionClosed), na, w))"

section \<open>Authentication\<close>

record ('h, 't, 'w, 'u) auth_result =
  ar_result :: "transport_error + unit"
  ar_states :: "connection_state list"
  ar_user :: 'u
  ar_noise :: "('h, 't) noise_session"
  ar_ws :: 'w

definition auth_frame :: "byte list \<Rightarrow> frame" where
  "auth_frame auth_bytes = \<lparr>f_id = 1, f_kind = Message, f_data = auth_bytes\<rparr>"

text \<open>The end of \<open>handle_auth\<close>: what the handler makes of the response.\<close>

definition auth_outcome_result :: "auth_outcome \<Rightarrow> (transport_error + unit) \<times> connection_state list" where
  "auth_outcome_result outcome =
     (case outcome of
        Success \<Rightarrow> (Inr (), [])
      | AuthUnauthorized \<Rightarrow> (Inl transport_error.Unauthorized, [connection_state.Unauthorized])
      | Failed \<Rightarrow> (Inl ConnectionClosed, [])
      | RetryWithNewPayload _ \<Rightarrow> (Inl ConnectionClosed, []))"

definition handle_auth :: "('h, 't) snow \<Rightarrow> postcard \<Rightarrow> ('w, client_message) websocket \<Rightarrow> 'u auth_handler \<Rightarrow>
    ws_client_config \<Rightarrow> nat \<Rightarrow> 'u \<Rightarrow> ('h, 't) noise_session \<Rightarrow> 'w \<Rightarrow> ('h, 't, 'w, 'u) auth_result" where
  "handle_auth sn pc sk auth cfg budget u noise ws =
     (case auth_payload auth u of
        (None, u1) \<Rightarrow> \<lparr>ar_result = Inr (), ar_states = [], ar_user = u1, ar_noise = noise, ar_ws = ws\<rparr>
      | (Some auth_bytes, u1) \<Rightarrow>
     (case encode_frame pc (auth_frame auth_bytes) of
        Inl e \<Rightarrow> \<lparr>ar_result = Inl e, ar_states = [WaitingForAuth], ar_user = u1, ar_noise = noise, ar_ws = ws\<rparr>
      | Inr encoded \<Rightarrow>
     (case send_frame sn pc sk Binary (noise, ws) (auth_frame auth_bytes) of
        (ok, noise1, w1) \<Rightarrow>
     (if \<not> ok then
        \<lparr>ar_result = Inl ConnectionClosed, ar_states = [WaitingForAuth], ar_user = u1, ar_noise = noise1, ar_ws = w1\<rparr>
      else
     (case recv_one_frame sn pc sk (cc_max_payload_bytes cfg) budget ((noise1, acc_new), w1) of
        (r, (noise2, _), w2) \<Rightarrow>
     (case r of
        Some (Inr f) \<Rightarrow>
          (if f_id f = 1 then
             (case process_auth_response auth u1 (f_data f) of
                (outcome, u2) \<Rightarrow>
             (case auth_outcome_result outcome of
                (res, sts) \<Rightarrow>
                  \<lparr>ar_result = res, ar_states = WaitingForAuth # sts, ar_user = u2, ar_noise = noise2, ar_ws = w2\<rparr>))
           else
             \<lparr>ar_result = Inl ConnectionClosed, ar_states = [WaitingForAuth], ar_user = u1, ar_noise = noise2, ar_ws = w2\<rparr>)
      | _ \<Rightarrow>
          \<lparr>ar_result = Inl ConnectionClosed, ar_states = [WaitingForAuth], ar_user = u1, ar_noise = noise2,
           ar_ws = w2\<rparr>))))))"

section \<open>What the steps guarantee\<close>

lemma version_error_is_Error:
  "client_version_handshake sk cfg ws = (VersionError st, w) \<Longrightarrow> \<exists>e. st = Error e"
  by (auto simp: client_version_handshake_def split: prod.splits option.splits sum.splits client_message.splits if_splits)

lemma version_rejected_is_mismatch:
  "client_version_handshake sk cfg ws = (VersionRejected st, w) \<Longrightarrow> \<exists>v. st = VersionMismatch (cc_protocol_version cfg) v"
  by (auto simp: client_version_handshake_def rejected_state_def
      split: prod.splits option.splits sum.splits client_message.splits if_splits)

lemma client_noise_handshake_finished:
  "client_noise_handshake sn sb sk cfg ws = (Inr noise, ws') \<Longrightarrow> is_finished noise"
  by (auto simp: client_noise_handshake_def
      split: sum.splits prod.splits if_splits option.splits client_message.splits)

lemma receive_packet_not_Unauthorized:
  "receive_packet sn pc m na p \<noteq> (Inl (RecvFrame transport_error.Unauthorized), na')"
  "receive_packet sn pc m na p \<noteq> (Inl (RecvDecode transport_error.Unauthorized), na')"
  by (auto simp: receive_packet_def feed_def feed_finish_def decode_frame_def map_err_eq_Inl Let_def
      split: prod.splits option.splits sum.splits if_splits)

lemma recv_one_frame_not_Unauthorized:
  "recv_one_frame sn pc sk m n (na, ws) \<noteq> (Some (Inl transport_error.Unauthorized), s')"
proof (induction n arbitrary: na ws)
  case (Suc n)
  then show ?case
    using receive_packet_not_Unauthorized [of sn pc m na]
    by (auto split: prod.splits option.splits sum.splits client_message.splits recv_error.splits)
qed simp

lemma encode_frame_not_Unauthorized: "encode_frame pc f \<noteq> Inl transport_error.Unauthorized"
  by (auto simp: encode_frame_def map_err_eq_Inl split: sum.splits)

lemmas handle_auth_splits = prod.splits option.splits sum.splits auth_outcome.splits if_splits

lemma handle_auth_unauthorized:
  assumes "ar_result (handle_auth sn pc sk auth cfg n u noise ws) = Inl transport_error.Unauthorized"
  obtains payload u1 noise1 w r w' f where "auth_payload auth u = (Some payload, u1)"
    "send_frame sn pc sk Binary (noise, ws) (auth_frame payload) = (True, noise1, w)"
    "recv_one_frame sn pc sk (cc_max_payload_bytes cfg) n ((noise1, acc_new), w) = (Some (Inr f), r, w')"
    "f_id f = 1" "fst (process_auth_response auth u1 (f_data f)) = AuthUnauthorized"
  using assms encode_frame_not_Unauthorized [of pc]
  by (auto simp: handle_auth_def auth_outcome_result_def split: handle_auth_splits)

lemma handle_auth_ok:
  assumes "ar_result (handle_auth sn pc sk auth cfg n u noise ws) = Inr ()"
  obtains (anonymous) "fst (auth_payload auth u) = None"
  | (accepted) payload u1 noise1 w r w' f where "auth_payload auth u = (Some payload, u1)"
    "send_frame sn pc sk Binary (noise, ws) (auth_frame payload) = (True, noise1, w)"
    "recv_one_frame sn pc sk (cc_max_payload_bytes cfg) n ((noise1, acc_new), w) = (Some (Inr f), r, w')"
    "f_id f = 1" "fst (process_auth_response auth u1 (f_data f)) = Success"
  using assms
  by (auto simp: handle_auth_def auth_outcome_result_def split: handle_auth_splits)

section \<open>Receiving one frame\<close>

text \<open>
  On a socket that delivers the packets of a frame, \<open>recv_one_frame\<close> returns it: when the
  receive path turns the packets into one frame and not earlier.
\<close>

lemma recv_one_frame_script:
  "feed_chunks (receive_packet sn pc m) na packets = (Inr [f], na') \<Longrightarrow>
   \<forall>ps qs. packets = ps @ qs \<and> qs \<noteq> [] \<longrightarrow> (\<exists>s. feed_chunks (receive_packet sn pc m) na ps = (Inr [], s)) \<Longrightarrow>
   length packets \<le> n \<Longrightarrow>
   recv_one_frame sn pc script_socket m n (na, (map (\<lambda>p. Inr (Binary p)) packets @ rest, out)) =
     (Some (Inr f), na', (rest, out))"
proof (induction packets arbitrary: na n)
  case (Cons p packets)
  then obtain n' where n: "n = Suc n'" by (cases n) auto
  obtain r na1 where step: "receive_packet sn pc m na p = (r, na1)" by (metis surj_pair)
  with Cons.prems(1) obtain o1 where r: "r = Inr o1" by (cases r) auto
  show ?case
  proof (cases "packets = []")
    case True
    with Cons.prems(1) step r n show ?thesis by (auto split: option.splits)
  next
    case False
    with Cons.prems(2) have "\<exists>s. feed_chunks (receive_packet sn pc m) na [p] = (Inr [], s)" by (metis append_Cons append_Nil)
    with step r have o1: "o1 = None" by (auto split: option.splits)
    have "feed_chunks (receive_packet sn pc m) na1 packets = (Inr [f], na')"
      using Cons.prems(1) step r o1 by (auto split: prod.splits sum.splits)
    moreover have "\<exists>s. feed_chunks (receive_packet sn pc m) na1 ps = (Inr [], s)"
      if "packets = ps @ qs" "qs \<noteq> []" for ps qs
    proof -
      from that Cons.prems(2) have "\<exists>s. feed_chunks (receive_packet sn pc m) na (p # ps) = (Inr [], s)" by (metis append_Cons)
      with step r o1 show ?thesis by (auto split: prod.splits sum.splits)
    qed
    ultimately show ?thesis using Cons.IH [of na1 n'] Cons.prems(3) n step r o1 by simp
  qed
qed simp

section \<open>Properties\<close>

text \<open>
  C28. Only the application's handler decides: authentication succeeds, or ends in the error that
  stops all reconnecting, only after the credentials were sent, one frame with the
  authentication id was received from what the socket delivered next, and the handler judged
  that frame's data a success or a rejection; without credentials it succeeds at once.  No
  network, decoding or timeout error is ever taken for a verdict.
\<close>

theorem auth_verdict_is_handlers:
  assumes "ar_result (handle_auth sn pc sk auth cfg n u noise ws) = v" "v = Inr () \<or> v = Inl transport_error.Unauthorized"
  shows "v = Inr () \<and> fst (auth_payload auth u) = None \<or>
    (\<exists>payload u1 noise1 w na w' f. auth_payload auth u = (Some payload, u1) \<and>
       send_frame sn pc sk Binary (noise, ws) (auth_frame payload) = (True, noise1, w) \<and>
       recv_one_frame sn pc sk (cc_max_payload_bytes cfg) n ((noise1, acc_new), w) = (Some (Inr f), na, w') \<and>
       f_id f = 1 \<and>
       fst (process_auth_response auth u1 (f_data f)) = (if v = Inr () then Success else AuthUnauthorized))"
  using assms(2)
proof
  assume v: "v = Inr ()"
  with assms(1) have "ar_result (handle_auth sn pc sk auth cfg n u noise ws) = Inr ()" by simp
  then show ?thesis
  proof (cases rule: handle_auth_ok)
    case anonymous
    with v show ?thesis by simp
  next
    case (accepted payload u1 noise1 w r w' f)
    with v show ?thesis by (simp del: split_paired_Ex)
  qed
next
  assume v: "v = Inl transport_error.Unauthorized"
  with assms(1) have "ar_result (handle_auth sn pc sk auth cfg n u noise ws) = Inl transport_error.Unauthorized" by simp
  then show ?thesis
  proof (cases rule: handle_auth_unauthorized)
    case (1 payload u1 noise1 w r w' f)
    with v show ?thesis by (simp del: split_paired_Ex)
  qed
qed

definition strict_auth :: "unit auth_handler" where
  "strict_auth = \<lparr>auth_payload = (\<lambda>u. (Some [1], u)), process_auth_response = (\<lambda>u _. (AuthUnauthorized, u)),
     on_session_expired = (\<lambda>u. u)\<rparr>"

definition sample_auth_config :: ws_client_config where
  "sample_auth_config = \<lparr>cc_protocol_name = lit ''CAM'', cc_protocol_version = lit ''1.0'', cc_heartbeat_interval = 30,
     cc_heartbeat_timeout = 10, cc_request_timeout = 30, cc_auth_timeout = 15, cc_max_payload_bytes = 100,
     cc_noise_server_key = None, cc_backoff = (\<lambda>_. Some 0), cc_buffer_size = 100\<rparr>"

definition sample_reply :: "byte list" where
  "sample_reply = u32_to_le_bytes 6 @ u32_to_le_bytes 1 @ [0, 7]"

lemma sample_reply_received:
  "0 < n \<Longrightarrow> receive_packet sample_snow sample_postcard 100 (\<lparr>ns_state = Some (Transport n)\<rparr>, acc_new)
     (sample_reply @ replicate 16 0) =
   (Inr (Some \<lparr>f_id = 1, f_kind = Message, f_data = [7]\<rparr>), \<lparr>ns_state = Some (Transport (n - 1))\<rparr>, acc_new)"
proof -
  have "feed acc_new sample_reply 100 = (Inr (Some (u32_to_le_bytes 1 @ [0, 7])), acc_new)"
    by (simp add: sample_reply_def feed_def feed_finish_def acc_new_def)
  moreover have "decode_frame sample_postcard (u32_to_le_bytes 1 @ [0, 7]) = Inr \<lparr>f_id = 1, f_kind = Message, f_data = [7]\<rparr>"
    using sample_from_bytes [of 1 Message "[7]"] by (simp add: decode_frame_def del: sample_from_bytes)
  ultimately show "0 < n \<Longrightarrow> ?thesis" by (simp add: receive_packet_def)
qed

lemma sample_auth_run:
  "ar_result (handle_auth sample_snow sample_postcard script_socket strict_auth sample_auth_config (Suc 0) ()
     \<lparr>ns_state = Some (Transport 5)\<rparr> ([Inr (Binary (sample_reply @ replicate 16 0))], [])) =
   Inl transport_error.Unauthorized"
proof -
  have cut: "chunks max_chunk_plain (u32_to_le_bytes w @ u32_to_le_bytes v @ [a, b]) = [u32_to_le_bytes w @ u32_to_le_bytes v @ [a, b]]"
    for w v a b by (subst chunks.simps) (simp add: max_chunk_plain_def)
  show ?thesis
    by (simp add: handle_auth_def strict_auth_def auth_frame_def encode_frame_def send_frame_def encrypt_chunked_def
        cut sample_auth_config_def sample_reply_received auth_outcome_result_def)
qed

theorem auth_verdict_is_handlers_witness:
  "\<exists>noise1 w na w' f.
    send_frame sample_snow sample_postcard script_socket Binary
      (\<lparr>ns_state = Some (Transport 5)\<rparr>, [Inr (Binary (sample_reply @ replicate 16 0))], []) (auth_frame [1]) = (True, noise1, w) \<and>
    recv_one_frame sample_snow sample_postcard script_socket 100 (Suc 0) ((noise1, acc_new), w) = (Some (Inr f), na, w') \<and>
    f_id f = 1 \<and> fst (process_auth_response strict_auth () (f_data f)) = AuthUnauthorized"
proof -
  have "cc_max_payload_bytes sample_auth_config = 100" "auth_payload strict_auth () = (Some [1], ())"
    by (simp_all add: sample_auth_config_def strict_auth_def)
  with auth_verdict_is_handlers [OF sample_auth_run disjI2 [OF refl]] show ?thesis by (simp del: split_paired_Ex)
qed

end
