(* ===== verification/Heartbeat.thy ===== *)
theory Heartbeat
  imports Main
begin

text \<open>
  The heartbeat that the server's session loop and the client's message loop share: a deadline
  that every received packet renews, a Ping when it passes, the end of the loop when it passes
  again unanswered.  A loop is a step function from the branch of \<open>select!\<close> that fired.
\<close>

datatype loop_flow = Continue | Break

fun run_turns :: "('e \<Rightarrow> 's \<Rightarrow> loop_flow \<times> 's) \<Rightarrow> 'e list \<Rightarrow> 's \<Rightarrow> loop_flow \<times> 's" where
  "run_turns step [] s = (Continue, s)"
| "run_turns step (e # es) s =
     (case step e s of (Break, s1) \<Rightarrow> (Break, s1) | (Continue, s1) \<Rightarrow> run_turns step es s1)"

lemma run_turns_append:
  "run_turns step es s = (Continue, s1) \<Longrightarrow> run_turns step (es @ es') s = run_turns step es' s1"
  by (induction es arbitrary: s) (auto split: prod.splits loop_flow.splits)

lemma run_turns_preserves:
  assumes "\<And>e s r s'. step e s = (r, s') \<Longrightarrow> f s' = f s"
  shows "run_turns step es s = (r, s') \<Longrightarrow> f s' = f s"
proof (induction es arbitrary: s)
  case (Cons e es)
  then show ?case by (cases "step e s"; cases "fst (step e s)") (auto dest: assms)
qed simp

text \<open>What a turn means to the heartbeat: the peer was heard, the timer fired, or neither.\<close>

datatype beat = Heard nat | Beat nat | Quiet

fun is_beat :: "beat \<Rightarrow> bool" where
  "is_beat (Beat now) = True"
| "is_beat _ = False"

fun is_heard :: "beat \<Rightarrow> bool" where
  "is_heard (Heard now) = True"
| "is_heard _ = False"

fun last_heard :: "beat \<Rightarrow> nat \<Rightarrow> nat" where
  "last_heard (Heard now) t = now"
| "last_heard _ t = t"

text \<open>The timer fires only once the deadline has passed.\<close>

fun on_time :: "nat \<Rightarrow> beat \<Rightarrow> bool" where
  "on_time deadline (Beat now) = (deadline \<le> now)"
| "on_time deadline _ = True"

text \<open>
  The states of a running loop, with the time the peer was last heard.
\<close>

inductive loop_reach :: "('e \<Rightarrow> 's \<Rightarrow> loop_flow \<times> 's) \<Rightarrow> ('e \<Rightarrow> beat) \<Rightarrow> ('s \<Rightarrow> nat) \<Rightarrow> 's \<Rightarrow> nat \<Rightarrow> 's \<Rightarrow> nat \<Rightarrow> bool"
  for step kind deadline s0 t0 where
  start: "loop_reach step kind deadline s0 t0 s0 t0"
| turn: "loop_reach step kind deadline s0 t0 s t \<Longrightarrow> on_time (deadline s) (kind e) \<Longrightarrow> step e s = (Continue, s') \<Longrightarrow>
    loop_reach step kind deadline s0 t0 s' (last_heard (kind e) t)"

inductive_cases loop_reachE: "loop_reach step kind deadline s0 t0 s t"

locale heartbeat_loop =
  fixes step :: "'e \<Rightarrow> 's \<Rightarrow> loop_flow \<times> 's"
    and kind :: "'e \<Rightarrow> beat"
    and deadline :: "'s \<Rightarrow> nat"
    and waiting :: "'s \<Rightarrow> bool"
    and interval :: nat
    and patience :: nat
  assumes heard: "kind e = Heard now \<Longrightarrow> step e s = (Continue, s') \<Longrightarrow>
      \<not> waiting s' \<and> deadline s' = now + interval"
    and quiet: "kind e = Quiet \<Longrightarrow> step e s = (Continue, s') \<Longrightarrow>
      waiting s' = waiting s \<and> deadline s' = deadline s"
    and beat: "kind e = Beat now \<Longrightarrow> step e s = (r, s') \<Longrightarrow>
      (if waiting s then r = Break else r = Continue \<and> waiting s' \<and> deadline s' = now + patience)"
begin

lemma reach_deadline:
  assumes "loop_reach step kind deadline s0 t0 s t" "\<not> waiting s0" "deadline s0 = t0 + interval"
  shows "if waiting s then t + interval + patience \<le> deadline s else deadline s = t + interval"
  using assms(1)
proof (induction rule: loop_reach.induct)
  case start
  with assms(2,3) show ?case by simp
next
  case (turn s t e s')
  show ?case
  proof (cases "kind e")
    case (Heard now)
    with heard [OF Heard turn.hyps(3)] show ?thesis by simp
  next
    case (Beat now)
    with beat [OF Beat turn.hyps(3)] turn.IH turn.hyps(2) show ?thesis by (auto split: if_splits)
  next
    case Quiet
    with quiet [OF Quiet turn.hyps(3)] turn.IH show ?thesis by simp
  qed
qed

text \<open>A loop that the timer ends has not heard its peer for both periods.\<close>

lemma never_early:
  assumes "loop_reach step kind deadline s0 t0 s t" "\<not> waiting s0" "deadline s0 = t0 + interval"
    and "kind e = Beat now" "on_time (deadline s) (kind e)" "step e s = (Break, s')"
  shows "t + interval + patience \<le> now"
  using reach_deadline [OF assms(1-3)] beat [OF assms(4,6)] assms(4,5) by (auto split: if_splits)

text \<open>A loop that hears nothing survives one firing of the timer at most.\<close>

lemma silent_waiting:
  "\<forall>e \<in> set es. \<not> is_heard (kind e) \<Longrightarrow> run_turns step es s = (Continue, s') \<Longrightarrow>
   length (filter (\<lambda>e. is_beat (kind e)) es) + of_bool (waiting s) = of_bool (waiting s')"
proof (induction es arbitrary: s)
  case (Cons e es)
  obtain r s1 where step: "step e s = (r, s1)" by fastforce
  with Cons.prems(2) have r: "r = Continue" and rest: "run_turns step es s1 = (Continue, s')"
    by (cases r; simp)+
  have "of_bool (is_beat (kind e)) + of_bool (waiting s) = (of_bool (waiting s1) :: nat)"
  proof (cases "kind e")
    case (Heard now)
    with Cons.prems(1) show ?thesis by simp
  next
    case (Beat now)
    with beat [OF Beat step] r show ?thesis by (auto split: if_splits)
  next
    case Quiet
    with quiet [OF Quiet] step r show ?thesis by simp
  qed
  with Cons.IH [of s1] Cons.prems(1) rest show ?case by (cases "is_beat (kind e)") auto
qed simp

lemma drops_silent:
  assumes "\<forall>e \<in> set es. \<not> is_heard (kind e)" "2 \<le> length (filter (\<lambda>e. is_beat (kind e)) es)"
  shows "fst (run_turns step es s) = Break"
proof (rule ccontr)
  assume "fst (run_turns step es s) \<noteq> Break"
  then obtain s' where "run_turns step es s = (Continue, s')"
    by (cases "run_turns step es s"; cases "fst (run_turns step es s)") auto
  from silent_waiting [OF assms(1) this] assms(2) show False
    by (cases "waiting s'") auto
qed

end

end
