(* ===== verification/MsgLoop.thy ===== *)
theory MsgLoop
  imports Client Connect Heartbeat
begin

text \<open>
  \<open>src/ws/client/connection_loop.rs\<close>, \<open>run_message_loop\<close>: the client's loop while it is online.
  A turn of its \<open>select!\<close> is a \<open>ml_event\<close>.  The commands that other tasks put into the channel
  while frames are being sent are part of the command event: one list for each time the code
  empties the channel (\<open>try_recv\<close> until it fails).
\<close>

section \<open>State\<close>

datatype ml_event =
    MlCancelled
  | MlWs nat
  | MlCmd client_cmd "client_cmd list list"
  | MlHeartbeat nat

text \<open>\<open>self.config\<close> never changes once the client exists, so it is part of the environment.\<close>

record ('h, 't, 'w, 'c) client_env =
  ce_config :: ws_client_config
  ce_snow :: "('h, 't) snow"
  ce_postcard :: postcard
  ce_socket :: "('w, client_message) websocket"
  ce_mpsc :: "('c, client_cmd) mpsc_sender"

record ('h, 't, 'w, 'c, 'e) msg_loop =
  ml_client :: "('c, 'e) ws_client"
  ml_ws :: 'w
  ml_noise :: "('h, 't) noise_session"
  ml_acc :: frame_accumulator
  ml_sched :: "frame wfq"
  ml_deadline :: nat
  ml_waiting :: bool

definition msg_loop_new :: "('h, 't, 'w, 'c) client_env \<Rightarrow> ('c, 'e) ws_client \<Rightarrow> 'w \<Rightarrow> ('h, 't) noise_session \<Rightarrow> nat \<Rightarrow> ('h, 't, 'w, 'c, 'e) msg_loop" where
  "msg_loop_new env c ws noise now =
     \<lparr>ml_client = c, ml_ws = ws, ml_noise = noise, ml_acc = acc_new, ml_sched = wfq_new,
      ml_deadline = now + cc_heartbeat_interval (ce_config env), ml_waiting = False\<rparr>"

section \<open>The branches\<close>

definition ml_on_ws :: "('h, 't, 'w, 'c) client_env \<Rightarrow> nat \<Rightarrow> ('h, 't, 'w, 'c, 'e) msg_loop \<Rightarrow>
    loop_flow \<times> ('h, 't, 'w, 'c, 'e) msg_loop" where
  "ml_on_ws env now s =
     (case ws_next (ce_socket env) (ml_ws s) of
        (Some (Inr (Binary data)), w) \<Rightarrow>
          let s1 = s\<lparr>ml_ws := w, ml_deadline := now + cc_heartbeat_interval (ce_config env), ml_waiting := False\<rparr> in
          (case receive_packet (ce_snow env) (ce_postcard env) (cc_max_payload_bytes (ce_config env))
             (ml_noise s, ml_acc s) data of
             (Inl e, ns, acc) \<Rightarrow> (Break, s1\<lparr>ml_noise := ns, ml_acc := acc\<rparr>)
           | (Inr None, ns, acc) \<Rightarrow> (Continue, s1\<lparr>ml_noise := ns, ml_acc := acc\<rparr>)
           | (Inr (Some f), ns, acc) \<Rightarrow>
               (Continue, s1\<lparr>ml_noise := ns, ml_acc := acc, ml_client := dispatch_frame (ce_mpsc env) f (ml_client s)\<rparr>))
      | (_, w) \<Rightarrow> (Break, s\<lparr>ml_ws := w\<rparr>))"

text \<open>
  \<open>while let Ok(queued) = cmd_rx.try_recv()\<close>: it goes on after a disconnect was requested.
\<close>

fun drain_cmds :: "('h, 't, 'w, 'c) client_env \<Rightarrow> client_cmd list \<Rightarrow> ('h, 't, 'w, 'c, 'e) msg_loop \<Rightarrow>
    bool \<times> ('h, 't, 'w, 'c, 'e) msg_loop" where
  "drain_cmds env [] s = (False, s)"
| "drain_cmds env (Send f p # cs) s = drain_cmds env cs (s\<lparr>ml_sched := enqueue (ml_sched s) f p\<rparr>)"
| "drain_cmds env (WakeUp # cs) s = drain_cmds env cs s"
| "drain_cmds env (EndpointChanged # cs) s =
     (True, snd (drain_cmds env cs (s\<lparr>ml_ws := snd (ws_close (ce_socket env) (ml_ws s))\<rparr>)))"
| "drain_cmds env (Reconnect # cs) s =
     (True, snd (drain_cmds env cs (s\<lparr>ml_ws := snd (ws_close (ce_socket env) (ml_ws s))\<rparr>)))"

text \<open>
  The loop \<open>while let Some(frame) = scheduler.next()\<close>; the result is \<open>send_error\<close> and the state,
  and \<open>None\<close> when the given number of turns was not enough for the loop to end.  A requested
  disconnect ends this loop but is not an error.  The channel is emptied after each frame that
  was sent.  As many turns as there are frames, queued or still to arrive, and one more are
  enough (\<open>ml_flush_returns\<close>), so that the branch for \<open>None\<close> in \<open>ml_on_cmd\<close> is never taken.
\<close>

fun ml_flush :: "('h, 't, 'w, 'c) client_env \<Rightarrow> nat \<Rightarrow> client_cmd list list \<Rightarrow> ('h, 't, 'w, 'c, 'e) msg_loop \<Rightarrow>
    (bool \<times> ('h, 't, 'w, 'c, 'e) msg_loop) option" where
  "ml_flush env 0 arrivals s = None"
| "ml_flush env (Suc n) arrivals s =
     (case wfq_next (ml_sched s) of
        (None, q) \<Rightarrow> Some (False, s\<lparr>ml_sched := q\<rparr>)
      | (Some f, q) \<Rightarrow>
          (case send_frame (ce_snow env) (ce_postcard env) (ce_socket env) Binary (ml_noise s, ml_ws s) f of
             (ok, ns, w) \<Rightarrow>
               let s1 = s\<lparr>ml_sched := q, ml_noise := ns, ml_ws := w\<rparr> in
               if \<not> ok then Some (True, s1)
               else
                 (case drain_cmds env (case arrivals of [] \<Rightarrow> [] | a # _ \<Rightarrow> a) s1 of
                    (disconnect, s2) \<Rightarrow>
                      if disconnect then Some (False, s2) else ml_flush env n (tl arrivals) s2)))"

definition ml_fuel :: "client_cmd list list \<Rightarrow> ('h, 't, 'w, 'c, 'e) msg_loop \<Rightarrow> nat" where
  "ml_fuel arrivals s = Suc (wfq_len (ml_sched s) + length (concat arrivals))"

definition ml_on_cmd :: "('h, 't, 'w, 'c) client_env \<Rightarrow> client_cmd \<Rightarrow> client_cmd list list \<Rightarrow>
    ('h, 't, 'w, 'c, 'e) msg_loop \<Rightarrow> loop_flow \<times> ('h, 't, 'w, 'c, 'e) msg_loop" where
  "ml_on_cmd env cmd arrivals s =
     (case cmd of
        Send f p \<Rightarrow>
          let s1 = s\<lparr>ml_sched := enqueue (ml_sched s) f p\<rparr> in
          (case ml_flush env (ml_fuel arrivals s1) arrivals s1 of
             None \<Rightarrow> (Break, s1)
           | Some (send_error, s2) \<Rightarrow> (if send_error then Break else Continue, s2))
      | WakeUp \<Rightarrow> (Continue, s)
      | _ \<Rightarrow> (Break, s\<lparr>ml_ws := snd (ws_close (ce_socket env) (ml_ws s))\<rparr>))"

definition ml_on_heartbeat :: "('h, 't, 'w, 'c) client_env \<Rightarrow> nat \<Rightarrow> ('h, 't, 'w, 'c, 'e) msg_loop \<Rightarrow>
    loop_flow \<times> ('h, 't, 'w, 'c, 'e) msg_loop" where
  "ml_on_heartbeat env now s =
     (if ml_waiting s then (Break, s\<lparr>ml_ws := snd (ws_close (ce_socket env) (ml_ws s))\<rparr>)
      else
        (case send_frame (ce_snow env) (ce_postcard env) (ce_socket env) Binary (ml_noise s, ml_ws s) ping_frame of
           (_, ns, w) \<Rightarrow>
             (Continue, s\<lparr>ml_noise := ns, ml_ws := w, ml_waiting := True, 
                          ml_deadline := now + cc_heartbeat_timeout (ce_config env)\<rparr>)))"

fun ml_handle :: "('h, 't, 'w, 'c) client_env \<Rightarrow> ml_event \<Rightarrow> ('h, 't, 'w, 'c, 'e) msg_loop \<Rightarrow>
    loop_flow \<times> ('h, 't, 'w, 'c, 'e) msg_loop" where
  "ml_handle env MlCancelled s = (Break, s)"
| "ml_handle env (MlWs now) s = ml_on_ws env now s"
| "ml_handle env (MlCmd cmd arrivals) s = ml_on_cmd env cmd arrivals s"
| "ml_handle env (MlHeartbeat now) s = ml_on_heartbeat env now s"

section \<open>What the branches leave alone\<close>

lemma drain_cmds_frame:
  "ml_client (snd (drain_cmds env cs s)) = ml_client s \<and> ml_noise (snd (drain_cmds env cs s)) = ml_noise s \<and>
   ml_acc (snd (drain_cmds env cs s)) = ml_acc s \<and> ml_deadline (snd (drain_cmds env cs s)) = ml_deadline s \<and>
   ml_waiting (snd (drain_cmds env cs s)) = ml_waiting s"
  by (induction env cs s rule: drain_cmds.induct) simp_all

lemma ml_flush_frame:
  "ml_flush env n arr s = Some (r, s') \<Longrightarrow>
   ml_client s' = ml_client s \<and> ml_acc s' = ml_acc s \<and> ml_deadline s' = ml_deadline s \<and> ml_waiting s' = ml_waiting s"
proof (induction n arbitrary: arr s)
  case (Suc n)
  obtain x q where nx: "wfq_next (ml_sched s) = (x, q)" by fastforce
  show ?case
  proof (cases x)
    case None
    with nx Suc.prems show ?thesis by auto
  next
    case (Some f)
    obtain ok ns w where snd: "send_frame (ce_snow env) (ce_postcard env) (ce_socket env) Binary (ml_noise s, ml_ws s) f = (ok, ns, w)"
      by (metis prod_cases3)
    let ?s1 = "s\<lparr>ml_sched := q, ml_noise := ns, ml_ws := w\<rparr>"
    obtain d s2 where dr: "drain_cmds env (case arr of [] \<Rightarrow> [] | a # _ \<Rightarrow> a) ?s1 = (d, s2)" by fastforce
    from drain_cmds_frame [of env "case arr of [] \<Rightarrow> [] | a # _ \<Rightarrow> a" ?s1] dr
    have "ml_client s2 = ml_client s" "ml_acc s2 = ml_acc s" "ml_deadline s2 = ml_deadline s" "ml_waiting s2 = ml_waiting s"
      by simp_all
    with Suc.IH [of "tl arr" s2] Suc.prems nx Some snd dr show ?thesis by (auto simp: Let_def split: if_splits)
  qed
qed simp

lemma ml_on_cmd_frame:
  "ml_on_cmd env cmd arr s = (r, s') \<Longrightarrow>
   ml_client s' = ml_client s \<and> ml_acc s' = ml_acc s \<and> ml_deadline s' = ml_deadline s \<and> ml_waiting s' = ml_waiting s"
  by (auto simp: ml_on_cmd_def Let_def split: client_cmd.splits prod.splits option.splits
      simp del: ml_flush.simps dest: ml_flush_frame)

section \<open>The heartbeat contract\<close>

fun ml_beat :: "ml_event \<Rightarrow> beat" where
  "ml_beat (MlWs now) = Heard now"
| "ml_beat (MlHeartbeat now) = Beat now"
| "ml_beat _ = Quiet"

interpretation client_hb: heartbeat_loop "ml_handle env" ml_beat ml_deadline ml_waiting
    "cc_heartbeat_interval (ce_config env)" "cc_heartbeat_timeout (ce_config env)"
  for env :: "('h, 't, 'w, 'c) client_env"
proof unfold_locales
  fix e now and s s' :: "('h, 't, 'w, 'c, 'e) msg_loop"
  assume "ml_beat e = Heard now" "ml_handle env e s = (Continue, s')"
  then show "\<not> ml_waiting s' \<and> ml_deadline s' = now + cc_heartbeat_interval (ce_config env)"
    by (cases e) (auto simp: ml_on_ws_def Let_def split: prod.splits option.splits sum.splits client_message.splits)
next
  fix e and s s' :: "('h, 't, 'w, 'c, 'e) msg_loop"
  assume "ml_beat e = Quiet" "ml_handle env e s = (Continue, s')"
  then show "ml_waiting s' = ml_waiting s \<and> ml_deadline s' = ml_deadline s"
    by (cases e) (auto dest: ml_on_cmd_frame)
next
  fix e now r and s s' :: "('h, 't, 'w, 'c, 'e) msg_loop"
  assume "ml_beat e = Beat now" "ml_handle env e s = (r, s')"
  then show "if ml_waiting s then r = Break
      else r = Continue \<and> ml_waiting s' \<and> ml_deadline s' = now + cc_heartbeat_timeout (ce_config env)"
    by (cases e) (auto simp: ml_on_heartbeat_def split: prod.splits)
qed

section \<open>Sending\<close>

fun cmd_frames :: "client_cmd list \<Rightarrow> frame list" where
  "cmd_frames [] = []"
| "cmd_frames (Send f p # cs) = f # cmd_frames cs"
| "cmd_frames (_ # cs) = cmd_frames cs"

lemma cmd_frames_append [simp]: "cmd_frames (cs @ ds) = cmd_frames cs @ cmd_frames ds"
  by (induction cs rule: cmd_frames.induct) simp_all

definition is_disconnect :: "client_cmd \<Rightarrow> bool" where
  "is_disconnect cmd \<longleftrightarrow> cmd = EndpointChanged \<or> cmd = Reconnect"

lemma drain_cmds_flow: "fst (drain_cmds env cs s) \<longleftrightarrow> (\<exists>c \<in> set cs. is_disconnect c)"
  by (induction env cs s rule: drain_cmds.induct) (simp_all add: is_disconnect_def)

lemma drain_cmds_sched:
  "wfq_wf (ml_sched s) \<Longrightarrow> wfq_wf (ml_sched (snd (drain_cmds env cs s))) \<and>
   wfq_items (ml_sched (snd (drain_cmds env cs s))) = wfq_items (ml_sched s) + mset (cmd_frames cs)"
  by (induction env cs s rule: drain_cmds.induct) (simp_all add: wfq_items_enqueue)

lemma drain_cmds_ws:
  "\<forall>c \<in> set cs. \<not> is_disconnect c \<Longrightarrow> ml_ws (snd (drain_cmds env cs s)) = ml_ws s"
  by (induction env cs s rule: drain_cmds.induct) (simp_all add: is_disconnect_def)

lemma length_cmd_frames: "length (cmd_frames cs) \<le> length cs"
  by (induction cs rule: cmd_frames.induct) simp_all

lemma drain_cmds_len:
  "wfq_wf (ml_sched s) \<Longrightarrow> wfq_len (ml_sched (snd (drain_cmds env cs s))) \<le> wfq_len (ml_sched s) + length cs"
  using drain_cmds_sched [of s env cs] length_cmd_frames [of cs] by (simp add: wfq_len_items)

definition arrived :: "client_cmd list list \<Rightarrow> client_cmd list" where
  "arrived arrivals = (case arrivals of [] \<Rightarrow> [] | a # _ \<Rightarrow> a)"

lemma concat_arrived: "concat arrivals = arrived arrivals @ concat (tl arrivals)"
  by (cases arrivals) (simp_all add: arrived_def)

lemma ml_flush_Suc:
  "ml_flush env (Suc n) arrivals s =
     (case wfq_next (ml_sched s) of
        (None, q) \<Rightarrow> Some (False, s\<lparr>ml_sched := q\<rparr>)
      | (Some f, q) \<Rightarrow>
          (case send_frame (ce_snow env) (ce_postcard env) (ce_socket env) Binary (ml_noise s, ml_ws s) f of
             (ok, ns, w) \<Rightarrow>
               if \<not> ok then Some (True, s\<lparr>ml_sched := q, ml_noise := ns, ml_ws := w\<rparr>)
               else (case drain_cmds env (arrived arrivals) (s\<lparr>ml_sched := q, ml_noise := ns, ml_ws := w\<rparr>) of
                       (d, s2) \<Rightarrow> if d then Some (False, s2) else ml_flush env n (tl arrivals) s2)))"
  by (auto simp: arrived_def Let_def split: option.splits prod.splits)

text \<open>A turn uses up one frame, of those queued and those still to arrive.\<close>

lemma ml_flush_shrinks:
  assumes "wfq_wf (ml_sched s)" "wfq_next (ml_sched s) = (Some f, q)"
    and dr: "drain_cmds env (arrived arrivals) (s\<lparr>ml_sched := q, ml_noise := ns, ml_ws := w\<rparr>) = (d, s2)"
  shows "wfq_wf (ml_sched s2) \<and>
    wfq_len (ml_sched s2) + length (concat (tl arrivals)) < wfq_len (ml_sched s) + length (concat arrivals)"
proof -
  let ?s1 = "s\<lparr>ml_sched := q, ml_noise := ns, ml_ws := w\<rparr>"
  have wf: "wfq_wf q" using assms(1,2) by (rule wfq.nxt_ok)
  from wfq.nxt_Some [OF assms(1), of f q] assms(2) have "wfq_len (ml_sched s) = Suc (wfq_len q)" by (simp add: wfq_len_items)
  with wf dr drain_cmds_sched [of ?s1 env "arrived arrivals"] drain_cmds_len [of ?s1 env "arrived arrivals"]
    concat_arrived [of arrivals] show ?thesis by auto
qed

lemma ml_flush_enough:
  "wfq_wf (ml_sched s) \<Longrightarrow> wfq_len (ml_sched s) + length (concat arrivals) < m \<Longrightarrow>
   wfq_len (ml_sched s) + length (concat arrivals) < n \<Longrightarrow>
   ml_flush env m arrivals s = ml_flush env n arrivals s"
proof (induction m arbitrary: n arrivals s)
  case (Suc m)
  then obtain n' where n: "n = Suc n'" by (cases n) auto
  obtain r q where nx: "wfq_next (ml_sched s) = (r, q)" by fastforce
  show ?case
  proof (cases r)
    case (Some f)
    obtain ok ns w where snd: "send_frame (ce_snow env) (ce_postcard env) (ce_socket env) Binary (ml_noise s, ml_ws s) f = (ok, ns, w)"
      by (metis prod_cases3)
    let ?s1 = "s\<lparr>ml_sched := q, ml_noise := ns, ml_ws := w\<rparr>"
    obtain d s2 where dr: "drain_cmds env (arrived arrivals) ?s1 = (d, s2)" by fastforce
    from ml_flush_shrinks [OF Suc.prems(1) nx [unfolded Some] dr] have wf2: "wfq_wf (ml_sched s2)"
      and less: "wfq_len (ml_sched s2) + length (concat (tl arrivals)) < wfq_len (ml_sched s) + length (concat arrivals)"
      by simp_all
    from less Suc.prems(2,3) n have lt: "wfq_len (ml_sched s2) + length (concat (tl arrivals)) < m"
      "wfq_len (ml_sched s2) + length (concat (tl arrivals)) < n'" by linarith+
    show ?thesis by (simp add: n ml_flush_Suc nx Some snd dr Suc.IH [OF wf2 lt] del: ml_flush.simps)
  qed (simp add: n nx)
qed simp

lemma ml_flush_returns:
  "wfq_wf (ml_sched s) \<Longrightarrow> wfq_len (ml_sched s) + length (concat arrivals) < n \<Longrightarrow>
   \<exists>e s'. ml_flush env n arrivals s = Some (e, s')"
proof (induction n arbitrary: arrivals s)
  case (Suc n)
  obtain r q where nx: "wfq_next (ml_sched s) = (r, q)" by fastforce
  show ?case
  proof (cases r)
    case (Some f)
    obtain ok ns w where snd: "send_frame (ce_snow env) (ce_postcard env) (ce_socket env) Binary (ml_noise s, ml_ws s) f = (ok, ns, w)"
      by (metis prod_cases3)
    obtain d s2 where dr: "drain_cmds env (arrived arrivals) (s\<lparr>ml_sched := q, ml_noise := ns, ml_ws := w\<rparr>) = (d, s2)"
      by fastforce
    from ml_flush_shrinks [OF Suc.prems(1) nx [unfolded Some] dr] Suc.prems(2) have
      "wfq_wf (ml_sched s2)" "wfq_len (ml_sched s2) + length (concat (tl arrivals)) < n" by simp_all
    from Suc.IH [OF this] show ?thesis by (auto simp: ml_flush_Suc nx Some snd dr simp del: ml_flush.simps)
  qed (auto simp: nx)
qed simp

text \<open>
  On a working socket, and while no disconnect is requested, the flush sends everything that is
  queued and everything that arrives until the queue is empty; the commands it did not fetch
  are still in the channel.
\<close>

lemma ml_flush_delivers:
  assumes "sends_ok (ce_socket env) sent"
  shows "wfq_wf (ml_sched s) \<Longrightarrow> wfq_len (ml_sched s) + length (concat arrivals) < n \<Longrightarrow>
    \<forall>c \<in> set (concat arrivals). \<not> is_disconnect c \<Longrightarrow>
    \<forall>g \<in># wfq_items (ml_sched s) + mset (cmd_frames (concat arrivals)). frame_fits (ce_postcard env) m g \<Longrightarrow>
    frame_linked (ce_snow env) pair (ce_postcard env)
      ((\<Sum>g \<in># wfq_items (ml_sched s) + mset (cmd_frames (concat arrivals)). frame_cost (ce_postcard env) g) + k)
      (ml_noise s) peer \<Longrightarrow>
    \<exists>s' packets fs peer' k'. ml_flush env n arrivals s = Some (False, s') \<and>
      sent (ml_ws s') = sent (ml_ws s) @ map Binary packets \<and>
      feed_chunks (receive_packet (ce_snow env) (ce_postcard env) m) peer packets = (Inr fs, peer') \<and>
      mset fs = wfq_items (ml_sched s) + mset (cmd_frames (concat (take (length fs) arrivals))) \<and>
      wfq_wf (ml_sched s') \<and> wfq_items (ml_sched s') = {#} \<and> k \<le> k' \<and>
      frame_linked (ce_snow env) pair (ce_postcard env) k' (ml_noise s') peer'"
proof (induction n arbitrary: arrivals s peer)
  case (Suc n)
  let ?pc = "ce_postcard env" and ?rc = "receive_packet (ce_snow env) (ce_postcard env) m"
  obtain r q where nx: "wfq_next (ml_sched s) = (r, q)" by fastforce
  have wf: "wfq_wf q" using Suc.prems(1) nx by (rule wfq.nxt_ok)
  show ?case
  proof (cases r)
    case None
    with wfq.nxt_None [OF Suc.prems(1), of q] nx Suc.prems(5) wf show ?thesis
      by (intro exI [of _ "s\<lparr>ml_sched := q\<rparr>"] exI [of _ "[]"] exI [of _ peer]) (auto intro: le_add2)
  next
    case (Some f)
    from wfq.nxt_Some [OF Suc.prems(1), of f q] nx Some
    have items: "wfq_items (ml_sched s) = add_mset f (wfq_items q)" by simp
    let ?rest = "(\<Sum>g \<in># wfq_items q + mset (cmd_frames (concat arrivals)). frame_cost ?pc g) + k"
    from Suc.prems(5) items have "frame_linked (ce_snow env) pair ?pc (frame_cost ?pc f + ?rest) (ml_noise s) peer"
      by (simp add: ac_simps)
    moreover from Suc.prems(4) items have "frame_fits ?pc m f" by simp
    ultimately obtain ps ns peer1 where pk: "pack_frame (ce_snow env) ?pc (ml_noise s) f = (Inr ps, ns)"
      "feed_chunks ?rc peer ps = (Inr [f], peer1)" "frame_linked (ce_snow env) pair ?pc ?rest ns peer1"
      using wire.pack_recv [of "ce_snow env" pair ?pc f ?rest "ml_noise s" peer m] by blast
    from send_chunks_ok [OF assms, of Binary "ml_ws s" ps] obtain w where
      w: "send_chunks (ce_socket env) Binary (ml_ws s) ps = (True, w)" "sent w = sent (ml_ws s) @ map Binary ps" by blast
    let ?s1 = "s\<lparr>ml_sched := q, ml_noise := ns, ml_ws := w\<rparr>"
    obtain d s2 where dr: "drain_cmds env (arrived arrivals) ?s1 = (d, s2)" by fastforce
    have nodis: "\<forall>c \<in> set (arrived arrivals). \<not> is_disconnect c" "\<forall>c \<in> set (concat (tl arrivals)). \<not> is_disconnect c"
      using Suc.prems(3) concat_arrived [of arrivals] by (metis UnCI set_append)+
    from drain_cmds_flow [of env "arrived arrivals" ?s1] nodis(1) dr have d: "\<not> d" by auto
    from drain_cmds_sched [of ?s1 env "arrived arrivals"] wf dr
    have s2: "wfq_wf (ml_sched s2)" "wfq_items (ml_sched s2) = wfq_items q + mset (cmd_frames (arrived arrivals))" by simp_all
    from drain_cmds_frame [of env "arrived arrivals" ?s1] drain_cmds_ws [OF nodis(1), of env ?s1] dr
    have s2': "ml_noise s2 = ns" "ml_ws s2 = w" by simp_all
    have all: "wfq_items (ml_sched s2) + mset (cmd_frames (concat (tl arrivals))) =
        wfq_items q + mset (cmd_frames (concat arrivals))"
      by (simp add: s2(2) concat_arrived [of arrivals])
    have "wfq_len (ml_sched s2) + length (concat (tl arrivals)) < n"
      using drain_cmds_len [of ?s1 env "arrived arrivals"] dr wf Suc.prems(2) concat_arrived [of arrivals]
      by (simp add: wfq_len_items items) 
    from Suc.IH [of s2 "tl arrivals" peer1, OF s2(1) this nodis(2)] obtain s' packets fs peer' k' where
      IH: "ml_flush env n (tl arrivals) s2 = Some (False, s')" "sent (ml_ws s') = sent w @ map Binary packets"
        "feed_chunks ?rc peer1 packets = (Inr fs, peer')"
        "mset fs = wfq_items (ml_sched s2) + mset (cmd_frames (concat (take (length fs) (tl arrivals))))"
        "wfq_wf (ml_sched s')" "wfq_items (ml_sched s') = {#}" "k \<le> k'"
        "frame_linked (ce_snow env) pair ?pc k' (ml_noise s') peer'"
      using Suc.prems(4) items pk(3) s2' unfolding all by auto
    have "ml_flush env (Suc n) arrivals s = Some (False, s')"
      using IH(1) d send_frame_pack [OF pk(1), of "ce_socket env" Binary "ml_ws s"] w(1)
      by (simp add: ml_flush_Suc nx Some dr del: ml_flush.simps)
    moreover have "mset (f # fs) = wfq_items (ml_sched s) + mset (cmd_frames (concat (take (length (f # fs)) arrivals)))"
      by (cases arrivals) (simp_all add: IH(4) s2(2) items arrived_def)
    ultimately show ?thesis
      using IH(2,5-8) w(2) feed_chunks_append [OF pk(2) IH(3)]
      by (intro exI [of _ s'] exI [of _ "ps @ packets"] exI [of _ "f # fs"] exI [of _ peer'] exI [of _ k']) simp
  qed
qed simp

text \<open>Sending leaves what is still to be read.\<close>

lemma ml_flush_input:
  "ce_socket env = script_socket \<Longrightarrow> ml_flush env n [] s = Some (r, s') \<Longrightarrow> fst (ml_ws s') = fst (ml_ws s)"
  by (induction n arbitrary: s) (auto simp: Let_def split: prod.splits option.splits if_splits dest: send_frame_script_input)

lemma ml_on_cmd_input:
  "ce_socket env = script_socket \<Longrightarrow> ml_on_cmd env (Send f p) [] s = (r, s') \<Longrightarrow> fst (ml_ws s') = fst (ml_ws s)"
  by (auto simp: ml_on_cmd_def Let_def simp del: ml_flush.simps split: prod.splits option.splits dest: ml_flush_input)

section \<open>Well-formedness\<close>

lemma ml_flush_wf: "ml_flush env n arrivals s = Some (r, s') \<Longrightarrow> wfq_wf (ml_sched s) \<Longrightarrow> wfq_wf (ml_sched s')"
proof (induction n arbitrary: arrivals s)
  case (Suc n)
  obtain x q where nx: "wfq_next (ml_sched s) = (x, q)" by fastforce
  have wf: "wfq_wf q" using Suc.prems(2) nx by (rule wfq.nxt_ok)
  show ?case
  proof (cases x)
    case None
    with Suc.prems(1) nx wf show ?thesis by (auto simp: ml_flush_Suc simp del: ml_flush.simps)
  next
    case (Some f)
    obtain ok ns w where snd: "send_frame (ce_snow env) (ce_postcard env) (ce_socket env) Binary (ml_noise s, ml_ws s) f = (ok, ns, w)"
      by (metis prod_cases3)
    let ?s1 = "s\<lparr>ml_sched := q, ml_noise := ns, ml_ws := w\<rparr>"
    obtain d s2 where dr: "drain_cmds env (arrived arrivals) ?s1 = (d, s2)" by fastforce
    with drain_cmds_sched [of ?s1 env "arrived arrivals"] wf have "wfq_wf (ml_sched s2)" by simp
    with Suc.IH [of "tl arrivals" s2] Suc.prems(1) wf show ?thesis
      by (auto simp: ml_flush_Suc nx Some snd dr simp del: ml_flush.simps split: if_splits)
  qed
qed simp

text \<open>The queue is well formed and the accumulator holds a proper prefix of one admissible frame.\<close>

definition ml_inv :: "('h, 't, 'w, 'c) client_env \<Rightarrow> ('h, 't, 'w, 'c, 'e) msg_loop \<Rightarrow> bool" where
  "ml_inv env s \<longleftrightarrow> wfq_wf (ml_sched s) \<and> acc_wf (cc_max_payload_bytes (ce_config env)) (ml_acc s)"

lemma ml_inv_new: "ml_inv env (msg_loop_new env c ws noise now)"
  by (simp add: ml_inv_def msg_loop_new_def)

lemma ml_inv_handle: "ml_inv env s \<Longrightarrow> ml_handle env e s = (Continue, s') \<Longrightarrow> ml_inv env s'"
proof (cases e)
  case (MlWs now)
  assume "ml_inv env s" "ml_handle env e s = (Continue, s')"
  with MlWs show ?thesis
    by (auto simp: ml_on_ws_def ml_inv_def Let_def dest: receive_packet_acc_wf
        split: prod.splits option.splits sum.splits client_message.splits)
next
  case (MlCmd cmd arrivals)
  assume inv: "ml_inv env s" and step: "ml_handle env e s = (Continue, s')"
  from step MlCmd ml_on_cmd_frame have acc: "ml_acc s' = ml_acc s" by fastforce
  from inv have "wfq_wf (enqueue (ml_sched s) f p)" for f p by (simp add: ml_inv_def)
  with step MlCmd have "cmd \<noteq> WakeUp \<longrightarrow> wfq_wf (ml_sched s')"
    by (auto simp: ml_on_cmd_def Let_def simp del: ml_flush.simps dest!: ml_flush_wf
        split: client_cmd.splits prod.splits option.splits if_splits)
  moreover have "cmd = WakeUp \<longrightarrow> s' = s" using step MlCmd by (auto simp: ml_on_cmd_def)
  ultimately show ?thesis using inv acc by (cases "cmd = WakeUp") (simp_all add: ml_inv_def)
qed (auto simp: ml_on_heartbeat_def ml_inv_def split: prod.splits if_splits)

section \<open>Receiving\<close>

text \<open>The packets of a connection's frames, read one by one, dispatch the frames in order.\<close>

lemma ml_receive_script:
  assumes "ce_socket env = script_socket"
  shows "feed_chunks (receive_packet (ce_snow env) (ce_postcard env) (cc_max_payload_bytes (ce_config env)))
      (ml_noise s, ml_acc s) packets = (Inr fs, ns', acc') \<Longrightarrow>
    ml_ws s = (map (\<lambda>p. Inr (Binary p)) packets @ rest, out) \<Longrightarrow> length ts = length packets \<Longrightarrow>
    \<exists>s'. run_turns (ml_handle env) (map MlWs ts) s = (Continue, s') \<and>
      ml_client s' = fold (dispatch_frame (ce_mpsc env)) fs (ml_client s) \<and> ml_noise s' = ns' \<and> ml_acc s' = acc' \<and>
      ml_ws s' = (rest, out) \<and> ml_sched s' = ml_sched s"
proof (induction packets arbitrary: s fs ts)
  case (Cons p packets)
  let ?rc = "receive_packet (ce_snow env) (ce_postcard env) (cc_max_payload_bytes (ce_config env))"
  from Cons.prems(3) obtain t ts' where ts: "ts = t # ts'" "length ts' = length packets" by (cases ts) auto
  from Cons.prems(1) obtain r ns acc fs1 where
    step: "?rc (ml_noise s, ml_acc s) p = (Inr r, ns, acc)" "feed_chunks ?rc (ns, acc) packets = (Inr fs1, ns', acc')"
      "fs = (case r of None \<Rightarrow> fs1 | Some f \<Rightarrow> f # fs1)"
    by (auto split: prod.splits sum.splits)
  let ?s1 = "s\<lparr>ml_ws := (map (\<lambda>p. Inr (Binary p)) packets @ rest, out),
      ml_deadline := t + cc_heartbeat_interval (ce_config env), ml_waiting := False, ml_noise := ns, ml_acc := acc,
      ml_client := (case r of None \<Rightarrow> ml_client s | Some f \<Rightarrow> dispatch_frame (ce_mpsc env) f (ml_client s))\<rparr>"
  have "ml_handle env (MlWs t) s = (Continue, ?s1)"
    using step(1) Cons.prems(2) by (cases r) (simp_all add: ml_on_ws_def assms Let_def)
  with Cons.IH [of ?s1 fs1 ts'] step ts show ?case by (cases r) auto
qed simp

text \<open>Which frames the event handler gets.\<close>

definition push_frame :: "frame \<Rightarrow> bool" where
  "push_frame f \<longleftrightarrow> f_kind f = Event \<or> f_kind f = Message \<and> f_id f = 0"

lemma dispatch_frame_handler: "cl_event_handler (dispatch_frame mp f c) = cl_event_handler c"
  by (simp add: dispatch_frame_def deliver_event_def pending_remove_def update_request_def Let_def
      split: frame_kind.splits option.splits)

lemma dispatch_frame_events:
  "cl_event_handler c = Some h \<Longrightarrow> cl_events (dispatch_frame mp f c) =
     cl_events c @ (if push_frame f then [(h, f_data f)] else [])"
  by (auto simp: dispatch_frame_def push_frame_def deliver_event_def pending_remove_def update_request_def Let_def
      word_gt_0 split: frame_kind.splits option.splits)

lemma fold_dispatch_events:
  "cl_event_handler c = Some h \<Longrightarrow> cl_events (fold (dispatch_frame mp) fs c) =
     cl_events c @ map (\<lambda>f. (h, f_data f)) (filter push_frame fs)"
  by (induction fs arbitrary: c) (simp_all add: dispatch_frame_handler dispatch_frame_events)

lemma ml_send_packets:
  assumes "sends_ok (ce_socket env) sent" "wfq_wf (ml_sched s)" "\<forall>c \<in> set (concat arrivals). \<not> is_disconnect c"
    and "\<forall>g \<in># add_mset f (wfq_items (ml_sched s)) + mset (cmd_frames (concat arrivals)).
      frame_fits (ce_postcard env) m g"
    and "frame_linked (ce_snow env) pair (ce_postcard env)
      ((\<Sum>g \<in># add_mset f (wfq_items (ml_sched s)) + mset (cmd_frames (concat arrivals)). frame_cost (ce_postcard env) g) + k)
      (ml_noise s) peer"
  shows "\<exists>s' packets fs peer' k'. ml_on_cmd env (Send f p) arrivals s = (Continue, s') \<and>
    sent (ml_ws s') = sent (ml_ws s) @ map Binary packets \<and>
    feed_chunks (receive_packet (ce_snow env) (ce_postcard env) m) peer packets = (Inr fs, peer') \<and>
    mset fs = add_mset f (wfq_items (ml_sched s)) + mset (cmd_frames (concat (take (length fs) arrivals))) \<and>
    wfq_items (ml_sched s') = {#} \<and> ml_client s' = ml_client s \<and> ml_acc s' = ml_acc s \<and> k \<le> k' \<and>
    frame_linked (ce_snow env) pair (ce_postcard env) k' (ml_noise s') peer'"
proof -
  let ?s1 = "s\<lparr>ml_sched := enqueue (ml_sched s) f p\<rparr>"
  have s1: "wfq_wf (ml_sched ?s1)" "wfq_items (ml_sched ?s1) = add_mset f (wfq_items (ml_sched s))"
    using assms(2) by (simp_all add: wfq_items_enqueue)
  have "wfq_len (ml_sched ?s1) + length (concat arrivals) < ml_fuel arrivals ?s1" by (simp add: ml_fuel_def)
  from ml_flush_delivers [OF assms(1) s1(1) this assms(3), of m pair k peer] assms(4,5) s1(2)
  obtain s' packets fs peer' k' where *: "ml_flush env (ml_fuel arrivals ?s1) arrivals ?s1 = Some (False, s')"
    "sent (ml_ws s') = sent (ml_ws s) @ map Binary packets"
    "feed_chunks (receive_packet (ce_snow env) (ce_postcard env) m) peer packets = (Inr fs, peer')"
    "mset fs = add_mset f (wfq_items (ml_sched s)) + mset (cmd_frames (concat (take (length fs) arrivals)))"
    "wfq_items (ml_sched s') = {#}" "k \<le> k'" "frame_linked (ce_snow env) pair (ce_postcard env) k' (ml_noise s') peer'"
    by (auto simp: add.assoc simp del: split_paired_Ex)
  moreover have "ml_on_cmd env (Send f p) arrivals s = (Continue, s')"
    by (simp add: ml_on_cmd_def Let_def *(1))
  ultimately show ?thesis using ml_flush_frame [OF *(1)]
    by (intro exI [of _ s'] exI [of _ packets] exI [of _ fs] exI [of _ peer'] exI [of _ k']) simp
qed

section \<open>Properties\<close>

text \<open>
  C13. A request or event handed to an online client reaches the server, with everything else
  that is queued: as long as no disconnect is requested meanwhile, the packets written decode,
  on the peer's receive path, to the queued frames, the new one and those that other tasks
  added while the frames were being sent, each once; then the queue is empty.
\<close>

theorem client_send_reaches_peer:
  assumes "sends_ok (ce_socket env) sent" "wfq_wf (ml_sched s)" "\<forall>c \<in> set (concat arrivals). \<not> is_disconnect c"
    and "\<forall>g \<in># add_mset f (wfq_items (ml_sched s)) + mset (cmd_frames (concat arrivals)).
      frame_fits (ce_postcard env) m g"
    and "frame_linked (ce_snow env) pair (ce_postcard env)
      ((\<Sum>g \<in># add_mset f (wfq_items (ml_sched s)) + mset (cmd_frames (concat arrivals)). frame_cost (ce_postcard env) g) + k)
      (ml_noise s) peer"
  shows "\<exists>s' packets fs peer'. ml_on_cmd env (Send f p) arrivals s = (Continue, s') \<and>
    sent (ml_ws s') = sent (ml_ws s) @ map Binary packets \<and>
    feed_chunks (receive_packet (ce_snow env) (ce_postcard env) m) peer packets = (Inr fs, peer') \<and>
    mset fs = add_mset f (wfq_items (ml_sched s)) + mset (cmd_frames (concat (take (length fs) arrivals))) \<and>
    wfq_items (ml_sched s') = {#}"
  using ml_send_packets [OF assms, of p] by blast

definition sample_ml_env :: "(nat, nat, (rstr + client_message) list \<times> client_message list, client_cmd list) client_env" where
  "sample_ml_env = \<lparr>ce_config = sample_auth_config, ce_snow = sample_snow, ce_postcard = sample_postcard,
     ce_socket = script_socket, ce_mpsc = list_sender\<rparr>"

definition sample_ml :: "(nat, nat, (rstr + client_message) list \<times> client_message list, client_cmd list, nat) msg_loop" where
  "sample_ml = msg_loop_new sample_ml_env (ws_client_new (\<lambda>_. []) sample_auth_config) ([], [])
     \<lparr>ns_state = Some (Transport 9)\<rparr> 0"

lemma sample_ml_simps [simp]:
  "ce_config sample_ml_env = sample_auth_config" "ce_snow sample_ml_env = sample_snow"
  "ce_postcard sample_ml_env = sample_postcard" "ce_socket sample_ml_env = script_socket"
  "ml_ws sample_ml = ([], [])" "ml_noise sample_ml = \<lparr>ns_state = Some (Transport 9)\<rparr>" "ml_acc sample_ml = acc_new"
  "ml_sched sample_ml = wfq_new" "ml_deadline sample_ml = 30" "\<not> ml_waiting sample_ml"
  by (simp_all add: sample_ml_env_def sample_ml_def msg_loop_new_def sample_auth_config_def)

lemma wfq_items_new [simp]: "wfq_items wfq_new = {#}"
  by (simp add: wfq_items_def wfq_new_def prio_count_def eval_nat_numeral)

theorem client_send_reaches_peer_witness:
  "\<exists>s' packets fs peer'.
    ml_on_cmd sample_ml_env (Send \<lparr>f_id = 2, f_kind = Message, f_data = [1]\<rparr> Normal)
      [[WakeUp, Send \<lparr>f_id = 3, f_kind = Message, f_data = [2]\<rparr> Bulk]] sample_ml = (Continue, s') \<and>
    snd (ml_ws s') = map Binary packets \<and>
    feed_chunks (receive_packet sample_snow sample_postcard 100) (\<lparr>ns_state = Some (Transport 9)\<rparr>, acc_new) packets =
      (Inr fs, peer') \<and> \<lparr>f_id = 2, f_kind = Message, f_data = [1]\<rparr> \<in> set fs"
proof -
  let ?f = "\<lparr>f_id = 2, f_kind = Message, f_data = [1]\<rparr> :: frame" and ?g = "\<lparr>f_id = 3, f_kind = Message, f_data = [2]\<rparr> :: frame"
  have cost: "frame_cost sample_postcard ?f = 1" "frame_cost sample_postcard ?g = 1"
    by (simp_all add: frame_cost_def encode_frame_def)
  have fits: "frame_fits sample_postcard 100 ?f" "frame_fits sample_postcard 100 ?g" by (simp_all add: frame_fits_def)
  have link: "frame_linked sample_snow sample_pair sample_postcard 9 \<lparr>ns_state = Some (Transport 9)\<rparr>
      (\<lparr>ns_state = Some (Transport 9)\<rparr>, acc_new)"
    by (simp add: frame_linked_def sample_postcard_ok sample_noise_paired)
  have ok: "sends_ok (ce_socket sample_ml_env) snd" by (simp add: script_sends_ok)
  have "\<exists>s' packets fs peer'. ml_on_cmd sample_ml_env (Send ?f Normal) [[WakeUp, Send ?g Bulk]] sample_ml = (Continue, s') \<and>
      snd (ml_ws s') = snd (ml_ws sample_ml) @ map Binary packets \<and>
      feed_chunks (receive_packet (ce_snow sample_ml_env) (ce_postcard sample_ml_env) 100)
        (\<lparr>ns_state = Some (Transport 9)\<rparr>, acc_new) packets = (Inr fs, peer') \<and>
      mset fs = add_mset ?f (wfq_items (ml_sched sample_ml)) +
        mset (cmd_frames (concat (take (length fs) [[WakeUp, Send ?g Bulk]]))) \<and>
      wfq_items (ml_sched s') = {#}"
    by (rule client_send_reaches_peer [OF ok, where pair = sample_pair and k = 7])
      (use cost fits link in \<open>simp_all add: is_disconnect_def\<close>)
  then obtain s' packets fs peer' where *: "ml_on_cmd sample_ml_env (Send ?f Normal) [[WakeUp, Send ?g Bulk]] sample_ml = (Continue, s')"
    "snd (ml_ws s') = map Binary packets"
    "feed_chunks (receive_packet sample_snow sample_postcard 100) (\<lparr>ns_state = Some (Transport 9)\<rparr>, acc_new) packets = (Inr fs, peer')"
    "mset fs = add_mset ?f (wfq_items (ml_sched sample_ml)) +
      mset (cmd_frames (concat (take (length fs) [[WakeUp, Send ?g Bulk]])))" by auto
  from *(4) have "?f \<in># mset fs" by simp
  with *(1-3) show ?thesis
    by (intro exI [of _ s'] exI [of _ packets] exI [of _ fs] exI [of _ peer']) simp
qed

text \<open>
  C14. What the server sends reaches the client's application: of any frames the server packs,
  the message loop reads them all without ending and dispatches them in order, the pushed ones
  going to the event handler once each with their data, the others to no handler; and it
  sends nothing itself.
\<close>

theorem client_dispatch_complete:
  assumes "frame_linked (ce_snow env) pair (ce_postcard env)
      (sum_list (map (frame_cost (ce_postcard env)) fs) + k) peer (ml_noise s, ml_acc s)"
    and "\<forall>f \<in> set fs. frame_fits (ce_postcard env) (cc_max_payload_bytes (ce_config env)) f"
    and "ce_socket env = script_socket" "cl_event_handler (ml_client s) = Some h"
  shows "\<exists>pss peer'. try_map (pack_frame (ce_snow env) (ce_postcard env)) peer fs = (Inr pss, peer') \<and>
    (\<forall>ts rest out. length ts = length (concat pss) \<longrightarrow>
      (\<exists>s'. run_turns (ml_handle env) (map MlWs ts)
          (s\<lparr>ml_ws := (map (\<lambda>p. Inr (Binary p)) (concat pss) @ rest, out)\<rparr>) = (Continue, s') \<and>
        ml_client s' = fold (dispatch_frame (ce_mpsc env)) fs (ml_client s) \<and>
        cl_events (ml_client s') = cl_events (ml_client s) @ map (\<lambda>f. (h, f_data f)) (filter push_frame fs) \<and>
        ml_ws s' = (rest, out) \<and>
        frame_linked (ce_snow env) pair (ce_postcard env) k peer' (ml_noise s', ml_acc s')))"
proof -
  from wire.pack_recv_all [OF assms(1,2)] obtain pss peer' r' where
    pk: "try_map (pack_frame (ce_snow env) (ce_postcard env)) peer fs = (Inr pss, peer')"
      "feed_chunks (receive_packet (ce_snow env) (ce_postcard env) (cc_max_payload_bytes (ce_config env)))
        (ml_noise s, ml_acc s) (concat pss) = (Inr fs, r')"
      "frame_linked (ce_snow env) pair (ce_postcard env) k peer' r'" by blast
  show ?thesis
  proof (rule exI [of _ pss], rule exI [of _ peer'], intro conjI allI impI)
    fix ts :: "nat list" and rest out
    assume "length ts = length (concat pss)"
    with ml_receive_script [OF assms(3), of "s\<lparr>ml_ws := (map (\<lambda>p. Inr (Binary p)) (concat pss) @ rest, out)\<rparr>"
        "concat pss" fs "fst r'" "snd r'" rest out ts] pk(2,3) fold_dispatch_events [OF assms(4), of "ce_mpsc env" fs]
    show "\<exists>s'. run_turns (ml_handle env) (map MlWs ts)
          (s\<lparr>ml_ws := (map (\<lambda>p. Inr (Binary p)) (concat pss) @ rest, out)\<rparr>) = (Continue, s') \<and>
        ml_client s' = fold (dispatch_frame (ce_mpsc env)) fs (ml_client s) \<and>
        cl_events (ml_client s') = cl_events (ml_client s) @ map (\<lambda>f. (h, f_data f)) (filter push_frame fs) \<and>
        ml_ws s' = (rest, out) \<and>
        frame_linked (ce_snow env) pair (ce_postcard env) k peer' (ml_noise s', ml_acc s')"
      by auto
  qed (fact pk(1))
qed

theorem client_dispatch_complete_witness:
  "\<exists>pss peer'. try_map (pack_frame sample_snow sample_postcard) \<lparr>ns_state = Some (Transport 9)\<rparr>
      [\<lparr>f_id = 0, f_kind = Event, f_data = [1]\<rparr>, \<lparr>f_id = 9, f_kind = Message, f_data = [2]\<rparr>,
       \<lparr>f_id = 5, f_kind = Event, f_data = [3]\<rparr>] = (Inr pss, peer') \<and>
    (\<exists>s'. run_turns (ml_handle sample_ml_env) (map MlWs (replicate (length (concat pss)) 5))
        (sample_ml\<lparr>ml_client := on_event 4 (ml_client sample_ml),
           ml_ws := (map (\<lambda>p. Inr (Binary p)) (concat pss), [])\<rparr>) = (Continue, s') \<and>
      cl_events (ml_client s') = [(4, [1]), (4, [3])])"
proof -
  let ?fs = "[\<lparr>f_id = 0, f_kind = Event, f_data = [1]\<rparr>, \<lparr>f_id = 9, f_kind = Message, f_data = [2]\<rparr>,
       \<lparr>f_id = 5, f_kind = Event, f_data = [3]\<rparr>] :: frame list"
  let ?s = "sample_ml\<lparr>ml_client := on_event 4 (ml_client sample_ml)\<rparr>"
  have "sum_list (map (frame_cost sample_postcard) ?fs) + 6 = 9" by (simp add: frame_cost_def encode_frame_def)
  then have link: "frame_linked (ce_snow sample_ml_env) sample_pair (ce_postcard sample_ml_env)
      (sum_list (map (frame_cost (ce_postcard sample_ml_env)) ?fs) + 6) \<lparr>ns_state = Some (Transport 9)\<rparr> (ml_noise ?s, ml_acc ?s)"
    by (simp add: frame_linked_def sample_postcard_ok sample_noise_paired)
  have fits: "\<forall>f \<in> set ?fs. frame_fits (ce_postcard sample_ml_env) (cc_max_payload_bytes (ce_config sample_ml_env)) f"
    by (simp add: frame_fits_def sample_auth_config_def)
  have handler: "cl_event_handler (ml_client ?s) = Some 4" by (simp add: on_event_def)
  have none: "cl_events (ml_client ?s) = []"
    by (simp add: on_event_def sample_ml_def msg_loop_new_def ws_client_new_def)
  from client_dispatch_complete [OF link fits _ handler] obtain pss peer' where
    "try_map (pack_frame sample_snow sample_postcard) \<lparr>ns_state = Some (Transport 9)\<rparr> ?fs = (Inr pss, peer')"
    and "\<And>ts rest out. length ts = length (concat pss) \<Longrightarrow>
      \<exists>s'. run_turns (ml_handle sample_ml_env) (map MlWs ts)
          (?s\<lparr>ml_ws := (map (\<lambda>p. Inr (Binary p)) (concat pss) @ rest, out)\<rparr>) = (Continue, s') \<and>
        cl_events (ml_client s') = cl_events (ml_client ?s) @ map (\<lambda>f. (4, f_data f)) (filter push_frame ?fs)"
    by auto blast
  from this(1) this(2) [of "replicate (length (concat pss)) 5" "[]" "[]"] none show ?thesis
    by (auto simp: push_frame_def)
qed

text \<open>
  C37. The client's heartbeat is never early: whatever happened before, when the message loop
  ends because a heartbeat fires, the server has not been heard for at least the heartbeat
  interval and then the heartbeat timeout.
\<close>

theorem client_heartbeat_never_early:
  assumes "loop_reach (ml_handle env) ml_beat ml_deadline (msg_loop_new env c ws noise t0) t0 s t" "ml_deadline s \<le> now"
    and "ml_handle env (MlHeartbeat now) s = (Break, s')"
  shows "t + cc_heartbeat_interval (ce_config env) + cc_heartbeat_timeout (ce_config env) \<le> now"
  by (rule client_hb.never_early [OF assms(1) _ _ _ _ assms(3)]) (simp_all add: msg_loop_new_def assms(2))

theorem client_heartbeat_never_early_witness:
  "\<exists>s s'. loop_reach (ml_handle sample_ml_env) ml_beat ml_deadline sample_ml 0 s 0 \<and> ml_deadline s = 41 \<and>
     ml_handle sample_ml_env (MlHeartbeat 45) s = (Break, s') \<and> 0 + (30 :: duration) + 10 \<le> 45"
proof -
  let ?client = "ws_client_new (\<lambda>_. []) sample_auth_config" and ?ns = "\<lparr>ns_state = Some (Transport 9)\<rparr>"
  have config: "ce_config sample_ml_env = sample_auth_config" "cc_heartbeat_interval sample_auth_config = 30"
    "cc_heartbeat_timeout sample_auth_config = 10"
    by (simp_all add: sample_auth_config_def)
  have ml: "sample_ml = msg_loop_new sample_ml_env ?client ([], []) ?ns 0" by (simp add: sample_ml_def)
  have 0: "loop_reach (ml_handle sample_ml_env) ml_beat ml_deadline sample_ml 0 sample_ml 0" by (rule loop_reach.start)
  obtain s1 where s1: "ml_handle sample_ml_env (MlHeartbeat 31) sample_ml = (Continue, s1)"
    "ml_waiting s1" "ml_deadline s1 = 41"
    by (cases "send_frame sample_snow sample_postcard script_socket Binary (?ns, ([], [])) ping_frame")
      (simp add: ml_on_heartbeat_def ml msg_loop_new_def config)
  have 1: "loop_reach (ml_handle sample_ml_env) ml_beat ml_deadline sample_ml 0 s1 0"
    using loop_reach.turn [OF 0 _ s1(1)] by (simp add: ml msg_loop_new_def config)
  obtain s2 where 2: "ml_handle sample_ml_env (MlHeartbeat 45) s1 = (Break, s2)"
    using s1 by (simp add: ml_on_heartbeat_def)
  from client_heartbeat_never_early [OF 1 [unfolded ml] _ 2] 1 2 s1(3) show ?thesis by (auto simp: config)
qed

text \<open>And a server that stays silent is dropped: a run without a packet has ended by the second heartbeat.\<close>

theorem client_drops_silent_server:
  assumes "\<forall>e \<in> set es. \<not> is_heard (ml_beat e)" "2 \<le> length (filter (\<lambda>e. is_beat (ml_beat e)) es)"
  shows "fst (run_turns (ml_handle env) es s) = Break"
  using assms by (rule client_hb.drops_silent)

theorem client_drops_silent_server_witness:
  "fst (run_turns (ml_handle sample_ml_env) [MlHeartbeat 31, MlCmd WakeUp [], MlHeartbeat 42] sample_ml) = Break"
  by (rule client_drops_silent_server) auto

end
