(* ===== verification/ConnLoop.thy ===== *)
theory ConnLoop
  imports MsgLoop
begin

text \<open>
  \<open>src/ws/client/connection_loop.rs\<close>, \<open>connection_loop\<close>: the background task of a client, as a
  state machine.  A phase is a place where the task waits; an input is what ends the wait.
  The steps between two waits are taken at once: opening a socket (whose outcome is an input)
  and the handshakes on it, which nothing interrupts in the code either.

  The client's methods run on other tasks; \<open>user_call\<close> lists them, and they may happen between
  any two steps.
\<close>

section \<open>Phases and inputs\<close>

text \<open>
  \<open>WaitMismatch\<close> is the wait inside \<open>handle_version_handshake\<close>, \<open>WaitMismatchOuter\<close> the one in
  \<open>connection_loop\<close> itself.
\<close>

datatype ('h, 't, 'w, 'c, 'e) phase =
    Top
  | WaitEndpoint
  | BackingOff rstr
  | Opening rstr
  | WaitMismatch
  | WaitMismatchOuter
  | WaitUnauthorized
  | Running "('h, 't, 'w, 'c, 'e) msg_loop"
  | WaitManual
  | Stopped
  | Panicked

text \<open>
  \<open>Opened\<close> carries what \<open>WsStream::connect\<close> returned, the number of messages that arrive before
  the authentication timer fires, and the time at which the message loop would start.
\<close>

datatype 'w loop_input =
    Tick
  | CancelFired
  | TimerFired
  | CmdReceived client_cmd
  | Opened "rstr + 'w" nat nat
  | LoopTurn ml_event

record ('h, 't, 'w, 'c, 'p, 'b, 'u) conn_env =
  cn_env :: "('h, 't, 'w, 'c) client_env"
  cn_builder :: "('p, 'b, 'h) snow_builder"
  cn_auth :: "'u auth_handler"

record ('h, 't, 'w, 'c, 'e, 'u) conn =
  cn_client :: "('c, 'e) ws_client"
  cn_user :: 'u
  cn_attempt :: u32
  cn_ever :: bool
  cn_phase :: "('h, 't, 'w, 'c, 'e) phase"

definition conn_new :: "('c, 'e) ws_client \<Rightarrow> 'u \<Rightarrow> ('h, 't, 'w, 'c, 'e, 'u) conn" where
  "conn_new c u = \<lparr>cn_client = c, cn_user = u, cn_attempt = 0, cn_ever = False, cn_phase = Top\<rparr>"

section \<open>Steps\<close>

definition cn_publish :: "connection_state \<Rightarrow> ('h, 't, 'w, 'c, 'e, 'u) conn \<Rightarrow> ('h, 't, 'w, 'c, 'e, 'u) conn" where
  "cn_publish st s = s\<lparr>cn_client := publish st (cn_client s)\<rparr>"

definition cn_clear :: "('h, 't, 'w, 'c, 'e, 'u) conn \<Rightarrow> ('h, 't, 'w, 'c, 'e, 'u) conn" where
  "cn_clear s = s\<lparr>cn_client := pending_clear (cn_client s)\<rparr>"

text \<open>The head of the loop.\<close>

definition conn_top :: "('h, 't, 'w, 'c, 'p, 'b, 'u) conn_env \<Rightarrow> ('h, 't, 'w, 'c, 'e, 'u) conn \<Rightarrow>
    ('h, 't, 'w, 'c, 'e, 'u) conn" where
  "conn_top env s =
     (if cl_cancelled (cn_client s) then s\<lparr>cn_phase := Stopped\<rparr>
      else case cl_url (cn_client s) of
        None \<Rightarrow> (cn_publish Disconnected s)\<lparr>cn_phase := WaitEndpoint\<rparr>
      | Some url \<Rightarrow>
          (case cc_backoff (ce_config (cn_env env)) (cn_attempt s) of
             None \<Rightarrow> s\<lparr>cn_phase := Panicked\<rparr>
           | Some delay \<Rightarrow>
               if from_secs 0 < delay then
                 (if cn_ever s then cn_publish (Reconnecting (cn_attempt s) delay) s else s)\<lparr>cn_phase := BackingOff url\<rparr>
               else (cn_publish Connecting s)\<lparr>cn_phase := Opening url\<rparr>))"

definition conn_failed :: "('h, 't, 'w, 'c, 'e, 'u) conn \<Rightarrow> ('h, 't, 'w, 'c, 'e, 'u) conn" where
  "conn_failed s = s\<lparr>cn_attempt := cn_attempt s + 1, cn_phase := Top\<rparr>"

text \<open>After the version exchange: Noise, authentication, and the message loop.\<close>

definition conn_secure :: "('h, 't, 'w, 'c, 'p, 'b, 'u) conn_env \<Rightarrow> nat \<Rightarrow> nat \<Rightarrow> 'w \<Rightarrow>
    ('h, 't, 'w, 'c, 'e, 'u) conn \<Rightarrow> ('h, 't, 'w, 'c, 'e, 'u) conn" where
  "conn_secure env budget now ws s =
     (let ce = cn_env env; s1 = cn_publish Authenticating s in
      case client_noise_handshake (ce_snow ce) (cn_builder env) (ce_socket ce) (ce_config ce) ws of
        (Inl e, _) \<Rightarrow> conn_failed s1
      | (Inr noise, ws1) \<Rightarrow>
          (let a = handle_auth (ce_snow ce) (ce_postcard ce) (ce_socket ce) (cn_auth env) (ce_config ce) budget
                 (cn_user s) noise ws1;
               s2 = (fold cn_publish (ar_states a) s1)\<lparr>cn_user := ar_user a\<rparr> in
           case ar_result a of
             Inr _ \<Rightarrow>
               (let s3 = cn_publish Online (s2\<lparr>cn_attempt := 0, cn_ever := True\<rparr>) in
                s3\<lparr>cn_phase := Running (msg_loop_new ce (cn_client s3) (ar_ws a) (ar_noise a) now)\<rparr>)
           | Inl e \<Rightarrow>
               (if e = transport_error.Unauthorized then
                  (cn_clear (cn_publish connection_state.Unauthorized s2))\<lparr>cn_phase := WaitUnauthorized\<rparr>
                else conn_failed (cn_publish (Error (transport_error_to_string e)) s2))))"

definition conn_opened :: "('h, 't, 'w, 'c, 'p, 'b, 'u) conn_env \<Rightarrow> nat \<Rightarrow> nat \<Rightarrow> 'w \<Rightarrow>
    ('h, 't, 'w, 'c, 'e, 'u) conn \<Rightarrow> ('h, 't, 'w, 'c, 'e, 'u) conn" where
  "conn_opened env budget now ws s =
     (let ce = cn_env env; s1 = cn_publish Handshaking s in
      case client_version_handshake (ce_socket ce) (ce_config ce) ws of
        (VersionRejected st, _) \<Rightarrow> (cn_clear (cn_publish st s1))\<lparr>cn_phase := WaitMismatch\<rparr>
      | (VersionError st, _) \<Rightarrow>
          (case st of
             VersionMismatch _ _ \<Rightarrow> (cn_clear (cn_publish st s1))\<lparr>cn_phase := WaitMismatchOuter\<rparr>
           | _ \<Rightarrow> conn_failed (cn_publish st s1))
      | (VersionOk, ws1) \<Rightarrow> conn_secure env budget now ws1 s1)"

text \<open>After the message loop has ended.\<close>

definition conn_offline :: "('h, 't, 'w, 'c, 'e, 'u) conn \<Rightarrow> ('h, 't, 'w, 'c, 'e, 'u) conn" where
  "conn_offline s =
     (let s1 = cn_clear (cn_publish Disconnected s) in
      if \<not> auto_reconnect (cn_client s1) then s1\<lparr>cn_phase := WaitManual\<rparr>
      else s1\<lparr>cn_attempt := 1, cn_phase := Top\<rparr>)"

text \<open>
  The waits.  Each is a \<open>select!\<close> between the cancellation token, \<open>None\<close> below, and the
  command channel, \<open>Some cmd\<close>; a command that does not end the wait is dropped.
\<close>

definition stop :: "('h, 't, 'w, 'c, 'e, 'u) conn \<Rightarrow> ('h, 't, 'w, 'c, 'e, 'u) conn" where
  "stop s = s\<lparr>cn_phase := Stopped\<rparr>"

definition wait_endpoint :: "client_cmd option \<Rightarrow> ('h, 't, 'w, 'c, 'e, 'u) conn \<Rightarrow> ('h, 't, 'w, 'c, 'e, 'u) conn" where
  "wait_endpoint r s =
     (case r of
        None \<Rightarrow> stop s
      | Some cmd \<Rightarrow> if cmd = EndpointChanged then s\<lparr>cn_phase := Top\<rparr> else s)"

text \<open>Any command ends the wait between two attempts; two of them also reset the attempt.\<close>

definition wait_backoff :: "client_cmd option \<Rightarrow> ('h, 't, 'w, 'c, 'e, 'u) conn \<Rightarrow> ('h, 't, 'w, 'c, 'e, 'u) conn" where
  "wait_backoff r s =
     (case r of
        None \<Rightarrow> stop s
      | Some cmd \<Rightarrow>
          (case cmd of
             Reconnect \<Rightarrow> s\<lparr>cn_attempt := 0\<rparr>
           | EndpointChanged \<Rightarrow> s\<lparr>cn_attempt := 0\<rparr>
           | _ \<Rightarrow> s)\<lparr>cn_phase := Top\<rparr>)"

text \<open>
  The wait inside \<open>handle_version_handshake\<close>: both ends return \<open>Err(None)\<close>, which the caller
  counts as a failed attempt, also when the token fired; the loop's head then sees the token.
\<close>

definition wait_mismatch :: "client_cmd option \<Rightarrow> ('h, 't, 'w, 'c, 'e, 'u) conn \<Rightarrow> ('h, 't, 'w, 'c, 'e, 'u) conn" where
  "wait_mismatch r s =
     (case r of
        None \<Rightarrow> conn_failed s
      | Some cmd \<Rightarrow> if cmd = EndpointChanged \<or> cmd = Reconnect then conn_failed s else s)"

definition wait_mismatch_outer :: "client_cmd option \<Rightarrow> ('h, 't, 'w, 'c, 'e, 'u) conn \<Rightarrow> ('h, 't, 'w, 'c, 'e, 'u) conn" where
  "wait_mismatch_outer r s =
     (case r of
        None \<Rightarrow> stop s
      | Some cmd \<Rightarrow>
          if cmd = WakeUp \<or> cmd = Reconnect \<or> cmd = EndpointChanged then s\<lparr>cn_attempt := 0, cn_phase := Top\<rparr> else s)"

definition wait_unauthorized :: "client_cmd option \<Rightarrow> ('h, 't, 'w, 'c, 'e, 'u) conn \<Rightarrow> ('h, 't, 'w, 'c, 'e, 'u) conn" where
  "wait_unauthorized r s =
     (case r of
        None \<Rightarrow> stop s
      | Some cmd \<Rightarrow>
          if cmd = WakeUp \<or> cmd = Reconnect \<or> cmd = EndpointChanged then s\<lparr>cn_attempt := 0, cn_phase := Top\<rparr> else s)"

definition wait_manual :: "client_cmd option \<Rightarrow> ('h, 't, 'w, 'c, 'e, 'u) conn \<Rightarrow> ('h, 't, 'w, 'c, 'e, 'u) conn" where
  "wait_manual r s =
     (case r of
        None \<Rightarrow> stop s
      | Some cmd \<Rightarrow> if cmd = Reconnect \<or> cmd = EndpointChanged then s\<lparr>cn_phase := Top\<rparr> else s)"

text \<open>The wait the task is in; the other phases watch neither the token nor the channel.\<close>

definition conn_wake :: "client_cmd option \<Rightarrow> ('h, 't, 'w, 'c, 'e, 'u) conn \<Rightarrow> ('h, 't, 'w, 'c, 'e, 'u) conn" where
  "conn_wake r s =
     (case cn_phase s of
        WaitEndpoint \<Rightarrow> wait_endpoint r s
      | BackingOff url \<Rightarrow> wait_backoff r s
      | WaitMismatch \<Rightarrow> wait_mismatch r s
      | WaitMismatchOuter \<Rightarrow> wait_mismatch_outer r s
      | WaitUnauthorized \<Rightarrow> wait_unauthorized r s
      | WaitManual \<Rightarrow> wait_manual r s
      | _ \<Rightarrow> s)"

lemmas wait_defs = conn_wake_def wait_endpoint_def wait_backoff_def wait_mismatch_def wait_mismatch_outer_def
  wait_unauthorized_def wait_manual_def stop_def

definition conn_turn :: "('h, 't, 'w, 'c) client_env \<Rightarrow> ml_event \<Rightarrow> ('h, 't, 'w, 'c, 'e) msg_loop \<Rightarrow>
    ('h, 't, 'w, 'c, 'e, 'u) conn \<Rightarrow> ('h, 't, 'w, 'c, 'e, 'u) conn" where
  "conn_turn ce e ml s =
     (case ml_handle ce e (ml\<lparr>ml_client := cn_client s\<rparr>) of
        (Continue, ml1) \<Rightarrow> s\<lparr>cn_client := ml_client ml1, cn_phase := Running ml1\<rparr>
      | (Break, ml1) \<Rightarrow> conn_offline (s\<lparr>cn_client := ml_client ml1\<rparr>))"

text \<open>An input that the phase does not wait for changes nothing.\<close>

fun conn_step :: "('h, 't, 'w, 'c, 'p, 'b, 'u) conn_env \<Rightarrow> 'w loop_input \<Rightarrow> ('h, 't, 'w, 'c, 'e, 'u) conn \<Rightarrow>
    ('h, 't, 'w, 'c, 'e, 'u) conn" where
  "conn_step env Tick s = (case cn_phase s of Top \<Rightarrow> conn_top env s | _ \<Rightarrow> s)"
| "conn_step env CancelFired s = conn_wake None s"
| "conn_step env TimerFired s =
     (case cn_phase s of BackingOff url \<Rightarrow> (cn_publish Connecting s)\<lparr>cn_phase := Opening url\<rparr> | _ \<Rightarrow> s)"
| "conn_step env (CmdReceived cmd) s = conn_wake (Some cmd) s"
| "conn_step env (Opened r budget now) s =
     (case cn_phase s of
        Opening url \<Rightarrow>
          (case r of
             Inl e \<Rightarrow> conn_failed (cn_publish (Error e) s)
           | Inr ws \<Rightarrow> conn_opened env budget now ws s)
      | _ \<Rightarrow> s)"
| "conn_step env (LoopTurn e) s =
     (case cn_phase s of Running ml \<Rightarrow> conn_turn (cn_env env) e ml s | _ \<Rightarrow> s)"

section \<open>Calls from other tasks\<close>

inductive user_call :: "('c, client_cmd) mpsc_sender \<Rightarrow> (rstr \<Rightarrow> 'url option) \<Rightarrow> ('c, 'e) ws_client \<Rightarrow> ('c, 'e) ws_client \<Rightarrow> bool"
  for mp parse where
  "user_call mp parse c (snd (set_endpoint mp parse c u))"
| "user_call mp parse c (clear_endpoint mp c)"
| "user_call mp parse c (set_auto_reconnect mp b c)"
| "user_call mp parse c (reconnect mp c)"
| "user_call mp parse c (shutdown c)"
| "user_call mp parse c (wake mp c)"
| "user_call mp parse c (on_event h c)"
| "user_call mp parse c (snd (request_start d c))"
| "user_call mp parse c (snd (request_send mp f p c))"
| "k < length (cl_requests c) \<Longrightarrow> user_call mp parse c (snd (request_poll k elapsed c))"
| "user_call mp parse c (snd (send_event mp d p c))"

inductive_simps user_call_simps: "user_call mp parse c c'"

lemma pending_ok_cong:
  "pending_ok c \<Longrightarrow> cl_pending c' = cl_pending c \<Longrightarrow> cl_requests c' = cl_requests c \<Longrightarrow> pending_ok c'"
  by (simp add: pending_ok_def)

lemma pending_discard_states [simp]: "cl_states (pending_discard rid c) = cl_states c"
  by (simp add: pending_discard_def pending_remove_def update_request_def split: option.splits)

lemma user_call_keeps:
  assumes "user_call mp parse c c'"
  shows "cl_states c' = cl_states c \<and> (pending_ok c \<longrightarrow> pending_ok c')"
  using assms
proof (cases rule: user_call.cases)
  case (8 d)
  then show ?thesis by (simp add: pending_ok_start) (simp add: request_start_def pending_insert_def Let_def)
next
  case (10 k elapsed)
  then show ?thesis
    by (simp add: pending_ok_poll) (auto simp: request_poll_def split: prod.splits oneshot.splits)
qed (auto simp: set_endpoint_def clear_endpoint_def set_auto_reconnect_def reconnect_def shutdown_def wake_def
    on_event_def request_send_def send_event_def Let_def elim!: pending_ok_cong split: option.splits prod.splits)

section \<open>Reachable states\<close>

inductive conn_reach :: "('h, 't, 'w, 'c, 'p, 'b, 'u) conn_env \<Rightarrow> (rstr \<Rightarrow> 'url option) \<Rightarrow> (nat \<Rightarrow> 'c) \<Rightarrow> 'u \<Rightarrow>
    ('h, 't, 'w, 'c, 'e, 'u) conn \<Rightarrow> bool" for env parse new_channel u0 where
  start: "conn_reach env parse new_channel u0 (conn_new (ws_client_new new_channel (ce_config (cn_env env))) u0)"
| step: "conn_reach env parse new_channel u0 s \<Longrightarrow> conn_reach env parse new_channel u0 (conn_step env i s)"
| user: "conn_reach env parse new_channel u0 s \<Longrightarrow> user_call (ce_mpsc (cn_env env)) parse (cn_client s) c' \<Longrightarrow>
    conn_reach env parse new_channel u0 (s\<lparr>cn_client := c'\<rparr>)"

lemma conn_reach_steps:
  "conn_reach env parse new_channel u0 s \<Longrightarrow> conn_reach env parse new_channel u0 (fold (conn_step env) is s)"
  by (induction "is" arbitrary: s) (auto intro: conn_reach.step)

section \<open>The life cycle\<close>

text \<open>States published last when the loop is between two attempts.\<close>

fun resting :: "connection_state \<Rightarrow> bool" where
  "resting Disconnected = True"
| "resting (Error _) = True"
| "resting Authenticating = True"
| "resting (VersionMismatch _ _) = True"
| "resting connection_state.Unauthorized = True"
| "resting (Reconnecting _ _) = True"
| "resting _ = False"

text \<open>Which published state may follow which.\<close>

fun lifecycle :: "connection_state \<Rightarrow> connection_state \<Rightarrow> bool" where
  "lifecycle a Disconnected = (resting a \<or> a = Online)"
| "lifecycle a Connecting = resting a"
| "lifecycle a (Reconnecting _ _) = resting a"
| "lifecycle a Handshaking = (a = Connecting)"
| "lifecycle a Authenticating = (a = Handshaking)"
| "lifecycle a WaitingForAuth = (a = Authenticating)"
| "lifecycle a Online = (a = Authenticating \<or> a = WaitingForAuth)"
| "lifecycle a connection_state.Unauthorized = (a = WaitingForAuth \<or> a = connection_state.Unauthorized)"
| "lifecycle a (VersionMismatch _ _) = (a = Handshaking)"
| "lifecycle a (Error _) = (a = Connecting \<or> a = Handshaking \<or> a = WaitingForAuth)"

definition showing :: "(connection_state \<Rightarrow> bool) \<Rightarrow> ('c, 'e) ws_client \<Rightarrow> bool" where
  "showing P c \<longleftrightarrow> cl_states c \<noteq> [] \<and> successively lifecycle (cl_states c) \<and> P (last (cl_states c)) \<and> pending_ok c"

lemma showing_mono: "showing P c \<Longrightarrow> (\<And>st. P st \<Longrightarrow> Q st) \<Longrightarrow> showing Q c"
  by (simp add: showing_def)

lemma showing_publish:
  "showing P c \<Longrightarrow> (\<And>a. P a \<Longrightarrow> lifecycle a st) \<Longrightarrow> Q st \<Longrightarrow> showing Q (publish st c)"
  by (auto simp: showing_def publish_def successively_append_iff elim: pending_ok_cong)

lemma showing_clear: "showing P c \<Longrightarrow> showing P (pending_clear c)"
  by (simp add: showing_def pending_ok_clear) (simp add: pending_clear_eq)

lemma dispatch_frame_states [simp]: "cl_states (dispatch_frame mp f c) = cl_states c"
  by (simp add: dispatch_frame_def deliver_event_def pending_remove_def update_request_def
      split: frame_kind.splits option.splits)

lemma ml_handle_client:
  assumes "ml_handle ce e ml = (r, ml')"
  obtains (same) "ml_client ml' = ml_client ml"
  | (dispatched) f where "r = Continue" "ml_client ml' = dispatch_frame (ce_mpsc ce) f (ml_client ml)"
  using assms
  by (cases e) (auto simp: ml_on_ws_def ml_on_heartbeat_def Let_def dest: ml_on_cmd_frame
        split: prod.splits option.splits sum.splits client_message.splits if_splits)

lemma ml_handle_showing:
  assumes "ml_handle ce e ml = (r, ml')" "showing P (ml_client ml)"
  shows "showing P (ml_client ml')"
  using assms(1)
proof (cases rule: ml_handle_client)
  case (dispatched f)
  with assms(2) show ?thesis by (auto simp: showing_def pending_ok_dispatch)
qed (use assms(2) in simp)

fun phase_shows :: "('h, 't, 'w, 'c, 'e) phase \<Rightarrow> connection_state \<Rightarrow> bool" where
  "phase_shows WaitEndpoint st = (st = Disconnected)"
| "phase_shows (Opening _) st = (st = Connecting)"
| "phase_shows WaitMismatch st = (\<exists>c s. st = VersionMismatch c s)"
| "phase_shows WaitMismatchOuter st = False"
| "phase_shows WaitUnauthorized st = (st = connection_state.Unauthorized)"
| "phase_shows (Running _) st = (st = Online)"
| "phase_shows WaitManual st = (st = Disconnected)"
| "phase_shows _ st = resting st"

definition conn_ok :: "('h, 't, 'w, 'c, 'e, 'u) conn \<Rightarrow> bool" where
  "conn_ok s \<longleftrightarrow> showing (phase_shows (cn_phase s)) (cn_client s)"

lemmas conn_defs = cn_publish_def cn_clear_def conn_failed_def Let_def

lemma handle_auth_states:
  "case handle_auth sn pc sk auth cfg n u noise ws of a \<Rightarrow>
     ar_result a = Inr () \<and> ar_states a \<in> {[], [WaitingForAuth]} \<or>
     ar_result a = Inl transport_error.Unauthorized \<and> ar_states a = [WaitingForAuth, connection_state.Unauthorized] \<or>
     (\<exists>e. e \<noteq> transport_error.Unauthorized \<and> ar_result a = Inl e \<and> ar_states a = [WaitingForAuth])"
  using encode_frame_not_Unauthorized [of pc]
  by (auto simp: handle_auth_def auth_outcome_result_def split: handle_auth_splits)

lemma phase_shows_resting [simp]:
  "phase_shows Top = resting" "phase_shows (BackingOff u) = resting" "phase_shows Stopped = resting"
  "phase_shows Panicked = resting"
  by (simp_all add: fun_eq_iff)

lemma showing_rests:
  assumes "showing (phase_shows p) c" "\<And>u. p \<noteq> Opening u" "\<And>m. p \<noteq> Running m"
  shows "showing resting c"
  using assms(1) by (rule showing_mono) (use assms(2,3) in \<open>cases p; auto\<close>)

lemma conn_ok_top: "conn_ok s \<Longrightarrow> cn_phase s = Top \<Longrightarrow> conn_ok (conn_top env s)"
  by (auto simp: conn_ok_def conn_top_def conn_defs elim!: showing_publish split: option.splits)

lemma conn_ok_secure:
  assumes "showing ((=) Handshaking) (cn_client s)"
  shows "conn_ok (conn_secure env n now ws s)"
proof -
  from assms have 1: "showing ((=) Authenticating) (publish Authenticating (cn_client s))"
    by (rule showing_publish) auto
  have 2: "showing ((=) WaitingForAuth) (publish WaitingForAuth (publish Authenticating (cn_client s)))"
    by (rule showing_publish [OF 1]) auto
  have 3: "showing ((=) connection_state.Unauthorized)
      (publish connection_state.Unauthorized (publish WaitingForAuth (publish Authenticating (cn_client s))))"
    by (rule showing_publish [OF 2]) auto
  note pubs = showing_publish [OF 1] showing_publish [OF 2] showing_publish [OF 3]
  obtain r ws1 where noise: "client_noise_handshake (ce_snow (cn_env env)) (cn_builder env) (ce_socket (cn_env env))
      (ce_config (cn_env env)) ws = (r, ws1)" by fastforce
  show ?thesis
  proof (cases r)
    case (Inl e)
    with noise 1 show ?thesis by (auto simp: conn_ok_def conn_secure_def conn_defs elim: showing_mono)
  next
    case (Inr ns)
    define a where "a = handle_auth (ce_snow (cn_env env)) (ce_postcard (cn_env env)) (ce_socket (cn_env env))
      (cn_auth env) (ce_config (cn_env env)) n (cn_user s) ns ws1"
    note step = conn_ok_def conn_secure_def conn_defs noise Inr a_def [symmetric]
    from handle_auth_states [of "ce_snow (cn_env env)" "ce_postcard (cn_env env)" "ce_socket (cn_env env)"
        "cn_auth env" "ce_config (cn_env env)" n "cn_user s" ns ws1]
    consider "ar_result a = Inr ()" "ar_states a = []"
      | "ar_result a = Inr ()" "ar_states a = [WaitingForAuth]"
      | "ar_result a = Inl transport_error.Unauthorized" "ar_states a = [WaitingForAuth, connection_state.Unauthorized]"
      | e where "e \<noteq> transport_error.Unauthorized" "ar_result a = Inl e" "ar_states a = [WaitingForAuth]"
      unfolding a_def by auto
    then show ?thesis
      by cases (auto simp: step intro!: pubs showing_clear)
  qed
qed

lemma conn_ok_opened:
  assumes "showing ((=) Connecting) (cn_client s)"
  shows "conn_ok (conn_opened env n now ws s)"
proof -
  from assms have 1: "showing ((=) Handshaking) (publish Handshaking (cn_client s))"
    by (rule showing_publish) auto
  obtain r ws1 where ver: "client_version_handshake (ce_socket (cn_env env)) (ce_config (cn_env env)) ws = (r, ws1)"
    by fastforce
  show ?thesis
  proof (cases r)
    case VersionOk
    with ver conn_ok_secure [of "cn_publish Handshaking s"] 1 show ?thesis
      by (simp add: conn_opened_def conn_defs)
  next
    case (VersionError st)
    with ver version_error_is_Error obtain e where "st = Error e" by metis
    with VersionError ver 1 show ?thesis
      by (auto simp: conn_ok_def conn_opened_def conn_defs intro!: showing_publish [OF 1])
  next
    case (VersionRejected st)
    with ver version_rejected_is_mismatch obtain v where "st = VersionMismatch (cc_protocol_version (ce_config (cn_env env))) v"
      by metis
    with VersionRejected ver 1 show ?thesis
      by (auto simp: conn_ok_def conn_opened_def conn_defs intro!: showing_clear showing_publish [OF 1])
  qed
qed

lemma conn_ok_offline: "showing ((=) Online) (cn_client s) \<Longrightarrow> conn_ok (conn_offline s)"
  by (auto simp: conn_ok_def conn_offline_def conn_defs intro!: showing_clear elim!: showing_publish)

lemma conn_ok_step: "conn_ok s \<Longrightarrow> conn_ok (conn_step env i s)"
proof (cases i)
  case Tick
  assume ok: "conn_ok s"
  with Tick conn_ok_top [OF ok] show ?thesis by (cases "cn_phase s") simp_all
next
  case CancelFired
  assume "conn_ok s"
  with CancelFired showing_rests [of "cn_phase s" "cn_client s"] show ?thesis
    by (auto simp: wait_defs conn_ok_def conn_defs split: phase.splits)
next
  case TimerFired
  assume "conn_ok s"
  with TimerFired show ?thesis
    by (auto simp: conn_ok_def conn_defs split: phase.splits elim!: showing_publish)
next
  case (CmdReceived cmd)
  assume "conn_ok s"
  with CmdReceived showing_rests [of "cn_phase s" "cn_client s"] show ?thesis
    by (auto simp: wait_defs conn_ok_def conn_defs split: phase.splits client_cmd.splits)
next
  case (Opened r n now)
  assume ok: "conn_ok s"
  show ?thesis
  proof (cases "\<exists>url. cn_phase s = Opening url")
    case True
    then obtain url where ph: "cn_phase s = Opening url" by blast
    with ok have conn: "showing ((=) Connecting) (cn_client s)" by (auto simp: conn_ok_def elim: showing_mono)
    show ?thesis
    proof (cases r)
      case (Inl e)
      with Opened ph conn show ?thesis by (auto simp: conn_ok_def conn_defs intro!: showing_publish [OF conn])
    next
      case (Inr ws)
      with Opened ph conn_ok_opened [OF conn] show ?thesis by simp
    qed
  next
    case False
    with ok Opened show ?thesis by (cases "cn_phase s") simp_all
  qed
next
  case (LoopTurn e)
  assume ok: "conn_ok s"
  show ?thesis
  proof (cases "\<exists>ml. cn_phase s = Running ml")
    case True
    then obtain ml where ph: "cn_phase s = Running ml" by blast
    with ok have conn: "showing ((=) Online) (cn_client s)" by (auto simp: conn_ok_def elim: showing_mono)
    obtain r ml1 where turn: "ml_handle (cn_env env) e (ml\<lparr>ml_client := cn_client s\<rparr>) = (r, ml1)" by fastforce
    from ml_handle_showing [OF turn] conn have "showing ((=) Online) (ml_client ml1)" by simp
    with ph turn LoopTurn show ?thesis
      by (cases r) (auto simp: conn_turn_def conn_ok_def [of "s\<lparr>cn_client := _, cn_phase := _\<rparr>"]
          intro!: conn_ok_offline elim: showing_mono)
  next
    case False
    with ok LoopTurn show ?thesis by (cases "cn_phase s") simp_all
  qed
qed

lemma conn_reach_ok: "conn_reach env parse new_channel u0 s \<Longrightarrow> conn_ok s"
proof (induction rule: conn_reach.induct)
  case start
  show ?case by (simp add: conn_ok_def conn_new_def showing_def ws_client_new_def pending_ok_def)
next
  case (step s i)
  then show ?case by (simp add: conn_ok_step)
next
  case (user s c')
  with user_call_keeps [OF user.hyps(2)] show ?case by (simp add: conn_ok_def showing_def)
qed

text \<open>A running message loop is well formed.\<close>

definition running_ok :: "('h, 't, 'w, 'c, 'p, 'b, 'u) conn_env \<Rightarrow> ('h, 't, 'w, 'c, 'e) phase \<Rightarrow> bool" where
  "running_ok env p \<longleftrightarrow> (\<forall>ml. p = Running ml \<longrightarrow> ml_inv (cn_env env) ml)"

lemma running_ok_simps [simp]:
  "running_ok env (Running ml) = ml_inv (cn_env env) ml" "running_ok env Top" "running_ok env WaitEndpoint"
  "running_ok env (BackingOff u)" "running_ok env (Opening u)" "running_ok env WaitMismatch"
  "running_ok env WaitMismatchOuter" "running_ok env WaitUnauthorized" "running_ok env WaitManual"
  "running_ok env Stopped" "running_ok env Panicked"
  by (simp_all add: running_ok_def)

lemma running_ok_secure: "running_ok env (cn_phase (conn_secure env n now ws s))"
  by (auto simp: running_ok_def conn_secure_def conn_defs ml_inv_new split: prod.splits sum.splits)

lemma running_ok_opened: "running_ok env (cn_phase (conn_opened env n now ws s))"
proof -
  obtain r ws1 where "client_version_handshake (ce_socket (cn_env env)) (ce_config (cn_env env)) ws = (r, ws1)" by fastforce
  then show ?thesis
    using running_ok_secure [of env n now ws1 "cn_publish Handshaking s"]
    by (cases r) (auto simp: conn_opened_def conn_defs running_ok_def split: connection_state.splits)
qed

lemma running_ok_turn:
  "ml_inv (cn_env env) ml \<Longrightarrow> running_ok env (cn_phase (conn_turn (cn_env env) e ml s))"
  using ml_inv_handle [of "cn_env env" "ml\<lparr>ml_client := cn_client s\<rparr>" e]
  by (auto simp: running_ok_def conn_turn_def conn_offline_def conn_defs ml_inv_def split: prod.splits loop_flow.splits)

lemma running_ok_step: "running_ok env (cn_phase s) \<Longrightarrow> running_ok env (cn_phase (conn_step env i s))"
  by (cases i; cases "cn_phase s")
    (auto simp: running_ok_opened running_ok_turn conn_top_def wait_defs conn_defs
      split: option.splits sum.splits)

lemma conn_reach_running: "conn_reach env parse new_channel u0 s \<Longrightarrow> running_ok env (cn_phase s)"
  by (induction rule: conn_reach.induct) (simp_all add: running_ok_step, simp add: running_ok_def conn_new_def)

text \<open>The mismatch branch of \<open>connection_loop\<close> itself is never taken.\<close>

lemma outer_mismatch_unreachable: "conn_reach env parse new_channel u0 s \<Longrightarrow> cn_phase s \<noteq> WaitMismatchOuter"
  using conn_reach_ok [of env parse new_channel u0 s] by (auto simp: conn_ok_def showing_def)

text \<open>Only a turn of the message loop leaves it, and it leaves the client as it was.\<close>

lemma leaving_step:
  assumes "cn_phase s = Running ml" "\<nexists>ml'. cn_phase (conn_step env i s) = Running ml'"
  shows "conn_step env i s = conn_offline s"
proof -
  from assms obtain e where i: "i = LoopTurn e" by (cases i) (auto simp: wait_defs)
  obtain r ml1 where turn: "ml_handle (cn_env env) e (ml\<lparr>ml_client := cn_client s\<rparr>) = (r, ml1)" by fastforce
  with assms i have "r = Break" by (cases r) (auto simp: conn_turn_def)
  with turn show ?thesis
    using assms(1) i by (cases rule: ml_handle_client [OF turn]) (simp_all add: conn_turn_def)
qed

text \<open>A client whose message loop runs has been online.\<close>

lemma running_ever_step:
  assumes "\<And>ml. cn_phase s = Running ml \<Longrightarrow> cn_ever s" "cn_phase (conn_step env i s) = Running ml"
  shows "cn_ever (conn_step env i s)"
  using assms
  by (cases i; cases "cn_phase s")
    (auto simp: conn_top_def conn_turn_def conn_offline_def conn_opened_def conn_secure_def wait_defs conn_defs
      split: option.splits sum.splits prod.splits loop_flow.splits version_result.splits connection_state.splits
        client_cmd.splits if_splits)

lemma conn_reach_ever: "conn_reach env parse new_channel u0 s \<Longrightarrow> cn_phase s = Running ml \<Longrightarrow> cn_ever s"
proof (induction arbitrary: ml rule: conn_reach.induct)
  case (step s i)
  from step.IH step.prems show ?case by (rule running_ever_step)
qed (simp_all add: conn_new_def)

section \<open>Waiting\<close>

text \<open>The inputs that do not end a wait.\<close>

fun ignored :: "('h, 't, 'w, 'c, 'e) phase \<Rightarrow> 'w loop_input \<Rightarrow> bool" where
  "ignored WaitEndpoint i = (i \<noteq> CancelFired \<and> i \<noteq> CmdReceived EndpointChanged)"
| "ignored WaitMismatch i = (i \<noteq> CancelFired \<and> i \<noteq> CmdReceived EndpointChanged \<and> i \<noteq> CmdReceived Reconnect)"
| "ignored WaitUnauthorized i =
     (i \<noteq> CancelFired \<and> i \<noteq> CmdReceived EndpointChanged \<and> i \<noteq> CmdReceived Reconnect \<and> i \<noteq> CmdReceived WakeUp)"
| "ignored WaitManual i = (i \<noteq> CancelFired \<and> i \<noteq> CmdReceived EndpointChanged \<and> i \<noteq> CmdReceived Reconnect)"
| "ignored Stopped i = True"
| "ignored Panicked i = True"
| "ignored _ i = False"

lemma ignored_step: "ignored (cn_phase s) i \<Longrightarrow> conn_step env i s = s"
  by (cases i; cases "cn_phase s") (auto simp: wait_defs)

lemma waits_are_stable:
  "\<forall>i \<in> set is. ignored (cn_phase s) i \<Longrightarrow> fold (conn_step env) is s = s"
  by (induction "is") (simp_all add: ignored_step)

section \<open>Failing to connect\<close>

definition failing_round :: "rstr \<Rightarrow> 'w loop_input list" where
  "failing_round e = [Opened (Inl e) 0 0, Tick, TimerFired]"

lemma publish_simps [simp]:
  "cl_url (publish st c) = cl_url c" "cl_cancelled (publish st c) = cl_cancelled c"
  by (simp_all add: publish_def)

text \<open>A loop about to open its endpoint's socket.\<close>

definition about_to_open :: "rstr \<Rightarrow> ('h, 't, 'w, 'c, 'e, 'u) conn \<Rightarrow> bool" where
  "about_to_open url s \<longleftrightarrow> cn_phase s = Opening url \<and> cl_url (cn_client s) = Some url \<and> \<not> cl_cancelled (cn_client s)"

lemma failing_round_delay:
  assumes "about_to_open url s" "cc_backoff (ce_config (cn_env env)) (cn_attempt s + 1) = Some d" "0 < d"
  shows "about_to_open url (fold (conn_step env) (failing_round e) s) \<and>
    cn_attempt (fold (conn_step env) (failing_round e) s) = cn_attempt s + 1"
  using assms by (simp add: about_to_open_def failing_round_def conn_top_def conn_defs)

lemma failing_round_panics:
  assumes "about_to_open url s" "cc_backoff (ce_config (cn_env env)) (cn_attempt s + 1) = None"
  shows "cn_phase (fold (conn_step env) (failing_round e) s) = Panicked"
  using assms by (simp add: about_to_open_def failing_round_def conn_top_def conn_defs)

lemma default_delay:
  assumes "0 < n" "n \<le> 2 ^ 31"
  shows "exponential_next_delay default_backoff (of_nat n) =
    (if n < 64 then Some (min (from_secs (2 ^ n)) (from_secs 30)) else None)"
  using exponential_doubling [of 1 n "from_secs 30"] assms by (cases n) (simp_all add: default_backoff_def)

lemma failing_rounds:
  assumes "about_to_open url s" "cn_attempt s = 0"
    and "cc_backoff (ce_config (cn_env env)) = exponential_next_delay default_backoff"
  shows "length es < 64 \<Longrightarrow> about_to_open url (fold (conn_step env) (concat (map failing_round es)) s) \<and>
    cn_attempt (fold (conn_step env) (concat (map failing_round es)) s) = of_nat (length es)"
proof (induction es rule: rev_induct)
  case (snoc e es)
  let ?s = "fold (conn_step env) (concat (map failing_round es)) s"
  from snoc have IH: "about_to_open url ?s" "cn_attempt ?s = of_nat (length es)" by simp_all
  have att: "cn_attempt ?s + 1 = of_nat (Suc (length es))" by (simp add: IH(2))
  have "cc_backoff (ce_config (cn_env env)) (cn_attempt ?s + 1) = Some (min (from_secs (2 ^ Suc (length es))) (from_secs 30))"
    unfolding att assms(3) using snoc.prems default_delay [of "Suc (length es)"] by simp
  from failing_round_delay [OF IH(1) this, of e] show ?case
    by (simp add: from_secs_def nanos_per_sec_def IH(2) att)
qed (use assms in simp)

section \<open>Properties\<close>

definition sample_client_env :: "(nat, nat, (rstr + client_message) list \<times> client_message list, client_cmd list) client_env" where
  "sample_client_env = \<lparr>ce_config = sample_auth_config\<lparr>cc_backoff := exponential_next_delay default_backoff\<rparr>,
     ce_snow = sample_snow, ce_postcard = sample_postcard, ce_socket = script_socket, ce_mpsc = list_sender\<rparr>"

definition sample_conn_env ::
  "(nat, nat, (rstr + client_message) list \<times> client_message list, client_cmd list, unit, unit, unit) conn_env" where
  "sample_conn_env = \<lparr>cn_env = sample_client_env,
     cn_builder = sample_builder,
     cn_auth = no_auth\<rparr>"

lemma sample_env_parts [simp]:
  "cn_env sample_conn_env = sample_client_env" "cn_builder sample_conn_env = sample_builder"
  "cn_auth sample_conn_env = no_auth" "ce_snow sample_client_env = sample_snow"
  "ce_postcard sample_client_env = sample_postcard" "ce_socket sample_client_env = script_socket"
  "ce_mpsc sample_client_env = list_sender"
  "ce_config sample_client_env = sample_auth_config\<lparr>cc_backoff := exponential_next_delay default_backoff\<rparr>"
  by (simp_all add: sample_conn_env_def sample_client_env_def)

text \<open>A client with an endpoint, about to open it, and one that has gone online.\<close>

definition sample_opening ::
  "(nat, nat, (rstr + client_message) list \<times> client_message list, client_cmd list, nat, unit) conn" where
  "sample_opening = conn_step sample_conn_env Tick
     (let s = conn_new (ws_client_new (\<lambda>_. []) (ce_config (cn_env sample_conn_env))) () in
      s\<lparr>cn_client := snd (set_endpoint list_sender Some (cn_client s) [97])\<rparr>)"

definition sample_online ::
  "(nat, nat, (rstr + client_message) list \<times> client_message list, client_cmd list, nat, unit) conn" where
  "sample_online = conn_step sample_conn_env
     (Opened (Inr ([Inr (Text (lit ''PROTOCOL_ACCEPTED'')), Inr (Binary [])], [])) 1 5) sample_opening"

lemma sample_opening_opening: "about_to_open [97] sample_opening \<and> cn_attempt sample_opening = 0"
  by (simp add: sample_opening_def conn_new_def ws_client_new_def set_endpoint_def notify_def list_sender_def
      about_to_open_def conn_top_def conn_defs publish_def
      exponential_next_delay_def from_secs_def)

lemma sample_opening_reach:
  "conn_reach sample_conn_env (Some :: rstr \<Rightarrow> rstr option) (\<lambda>_. []) () sample_opening"
  unfolding sample_opening_def Let_def
  by (rule conn_reach.step, rule conn_reach.user, rule conn_reach.start)
    (simp add: user_call.intros(1))

lemma sample_online_reach: "conn_reach sample_conn_env (Some :: rstr \<Rightarrow> rstr option) (\<lambda>_. []) () sample_online"
  unfolding sample_online_def by (rule conn_reach.step [OF sample_opening_reach])

lemma sample_client_noise:
  "client_noise_handshake sample_snow sample_builder script_socket cfg ([Inr (Binary [])], out) =
     (Inr \<lparr>ns_state = Some (Transport 1000)\<rparr>, ([], out @ [Binary [], Binary []]))"
  by (simp add: client_noise_handshake_def sample_builder_client write_message_def read_message_def
      finish_handshake_def is_finished_def sample_snow_def)

lemma sample_online_running: "\<exists>ml. cn_phase sample_online = Running ml"
proof -
  have self: "contains (lit ''PROTOCOL_ACCEPTED'') (lit ''PROTOCOL_ACCEPTED'')"
    by (metis append_Nil append_Nil2 contains_iff)
  obtain out where "client_version_handshake script_socket (ce_config sample_client_env)
      ([Inr (Text (lit ''PROTOCOL_ACCEPTED'')), Inr (Binary [])], []) = (VersionOk, ([Inr (Binary [])], out))"
    by (simp add: client_version_handshake_def self)
  with sample_opening_opening sample_client_noise show ?thesis
    by (simp add: sample_online_def about_to_open_def conn_opened_def conn_secure_def conn_defs
        handle_auth_def no_auth_def)
qed

text \<open>
  C8. The states a client publishes always follow the life cycle: over any run of the
  connection loop, interleaved with any calls of the client's methods, each published state
  is one that \<open>lifecycle\<close> allows after the one before it.
\<close>

theorem published_states_follow_lifecycle:
  assumes "conn_reach env parse new_channel u0 s"
  shows "cl_states (cn_client s) \<noteq> [] \<and> successively lifecycle (cl_states (cn_client s))"
  using conn_reach_ok [OF assms] by (simp add: conn_ok_def showing_def)

theorem published_states_follow_lifecycle_witness:
  "cl_states (cn_client sample_online) \<noteq> [] \<and> successively lifecycle (cl_states (cn_client sample_online))"
  by (rule published_states_follow_lifecycle [OF sample_online_reach])

text \<open>
  C24. Every reachable state is well formed: the pending map holds exactly the requests that still
  wait, each under its own id, and while the message loop runs its queue's counts and credits
  are consistent and its accumulator holds a proper prefix of one frame within the limit.
\<close>

theorem connection_well_formed:
  assumes "conn_reach env parse new_channel u0 s"
  shows "pending_ok (cn_client s) \<and>
    (case cn_phase s of
       Running ml \<Rightarrow> wfq_wf (ml_sched ml) \<and> acc_wf (cc_max_payload_bytes (ce_config (cn_env env))) (ml_acc ml)
     | _ \<Rightarrow> True)"
  using conn_reach_ok [OF assms] conn_reach_running [OF assms]
  by (auto simp: conn_ok_def showing_def running_ok_def ml_inv_def split: phase.splits)

theorem connection_well_formed_witness:
  "\<exists>ml. cn_phase sample_online = Running ml \<and> wfq_wf (ml_sched ml)"
  using connection_well_formed [OF sample_online_reach] sample_online_running by auto

text \<open>
  C20. A client reports \<open>Online\<close> exactly while its message loop runs: in every reachable state
  the last published state is \<open>Online\<close> if and only if the loop is in that phase.
\<close>

theorem online_iff_message_loop_runs:
  assumes "conn_reach env parse new_channel u0 s"
  shows "is_online (client_state (cn_client s)) \<longleftrightarrow> (\<exists>ml. cn_phase s = Running ml)"
proof -
  from conn_reach_ok [OF assms] have "phase_shows (cn_phase s) (client_state (cn_client s))"
    by (simp add: conn_ok_def showing_def client_state_def)
  then show ?thesis
    by (cases "cn_phase s"; cases "client_state (cn_client s)") simp_all
qed

theorem online_iff_message_loop_runs_witness:
  "is_online (client_state (cn_client sample_online))"
  using online_iff_message_loop_runs [OF sample_online_reach] sample_online_running by simp

text \<open>
  C10. Leaving the message loop leaves no request behind: whatever turn ends it, every request
  future of the client returns at its next turn, and the state published is \<open>Disconnected\<close>.
\<close>

theorem leaving_online_releases_requests:
  assumes "conn_reach env parse new_channel u0 s" "cn_phase s = Running ml"
    and "\<nexists>ml'. cn_phase (conn_step env i s) = Running ml'"
  shows "(\<forall>k < length (cl_requests (cn_client (conn_step env i s))).
      fst (request_poll k False (cn_client (conn_step env i s))) \<noteq> None) \<and>
    client_state (cn_client (conn_step env i s)) = Disconnected"
proof -
  let ?c = "publish Disconnected (cn_client s)"
  from conn_reach_ok [OF assms(1)] have "pending_ok (cn_client s)" by (simp add: conn_ok_def showing_def)
  then have ok: "pending_ok ?c" by (rule pending_ok_cong) (simp_all add: publish_def)
  have client: "cn_client (conn_step env i s) = pending_clear ?c"
    by (simp add: leaving_step [OF assms(2,3)] conn_offline_def conn_defs)
  have "fst (request_poll k False (pending_clear ?c)) \<noteq> None" if "k < length (cl_requests (pending_clear ?c))" for k
    using that by (cases "cl_requests ?c ! k"; cases "snd (cl_requests ?c ! k)")
      (simp_all add: request_poll_def pending_clear_eq [OF ok] map_apsnd_nth)
  then show ?thesis
    unfolding client by (simp add: client_state_def pending_clear_eq [OF ok]) (simp add: publish_def)
qed

theorem leaving_online_releases_requests_witness:
  "client_state (cn_client (conn_step sample_conn_env (LoopTurn (MlCmd Reconnect [])) sample_online)) = Disconnected"
proof -
  obtain ml where ml: "cn_phase sample_online = Running ml" using sample_online_running by blast
  have "\<nexists>ml'. cn_phase (conn_step sample_conn_env (LoopTurn (MlCmd Reconnect [])) sample_online) = Running ml'"
    by (simp add: ml conn_turn_def ml_on_cmd_def conn_offline_def conn_defs)
  from leaving_online_releases_requests [OF sample_online_reach ml this] show ?thesis by blast
qed

text \<open>
  C11. A lost connection is opened again: whatever turn ends the message loop of a client that
  reconnects automatically, it publishes \<open>Disconnected\<close>, then \<open>Reconnecting\<close> with attempt 1 and
  that attempt's delay, and when the delay has passed it opens its endpoint again, publishing
  \<open>Connecting\<close>.
\<close>

theorem lost_connection_reconnects:
  assumes "conn_reach env parse new_channel u0 s" "cn_phase s = Running ml"
    and "\<nexists>ml'. cn_phase (conn_step env i s) = Running ml'"
    and "auto_reconnect (cn_client s)" "endpoint (cn_client s) = Some url" "\<not> cl_cancelled (cn_client s)"
    and "cc_backoff (ce_config (cn_env env)) 1 = Some d" "from_secs 0 < d"
  shows "\<exists>s1 s2. fold (conn_step env) [i, Tick] s = s1 \<and> cn_phase s1 = BackingOff url \<and>
      cl_states (cn_client s1) = cl_states (cn_client s) @ [Disconnected, Reconnecting 1 d] \<and>
    conn_step env TimerFired s1 = s2 \<and> cn_phase s2 = Opening url \<and> cn_attempt s2 = 1 \<and>
      cl_states (cn_client s2) = cl_states (cn_client s1) @ [Connecting]"
  using assms(4-8) conn_reach_ever [OF assms(1,2)] leaving_step [OF assms(2,3)]
  by (simp add: conn_offline_def conn_top_def conn_defs auto_reconnect_def endpoint_def pending_clear_def publish_def
      del: conn_step.simps(6))

text \<open>Going online changes nothing but what is published.\<close>

lemma fold_cn_publish_keeps:
  "cl_url (cn_client (fold cn_publish sts s)) = cl_url (cn_client s)"
  "cl_auto_reconnect (cn_client (fold cn_publish sts s)) = cl_auto_reconnect (cn_client s)"
  "cl_cancelled (cn_client (fold cn_publish sts s)) = cl_cancelled (cn_client s)"
  by (induction sts arbitrary: s) (simp_all add: cn_publish_def publish_def)

lemma sample_online_keeps:
  "endpoint (cn_client sample_online) = Some [97]" "auto_reconnect (cn_client sample_online)"
  "\<not> cl_cancelled (cn_client sample_online)"
proof -
  obtain ml where "cn_phase sample_online = Running ml" using sample_online_running by blast
  then have "cl_url (cn_client sample_online) = cl_url (cn_client sample_opening)"
    "cl_auto_reconnect (cn_client sample_online) = cl_auto_reconnect (cn_client sample_opening)"
    "cl_cancelled (cn_client sample_online) = cl_cancelled (cn_client sample_opening)"
    using sample_opening_opening unfolding sample_online_def about_to_open_def
    by (auto simp: conn_opened_def conn_secure_def conn_defs fold_cn_publish_keeps publish_def
        split: sum.splits prod.splits version_result.splits connection_state.splits if_splits)
  moreover have "cl_auto_reconnect (cn_client sample_opening)"
    by (simp add: sample_opening_def conn_new_def ws_client_new_def set_endpoint_def notify_def conn_top_def conn_defs publish_def
        split: option.splits)
  ultimately show "endpoint (cn_client sample_online) = Some [97]" "auto_reconnect (cn_client sample_online)"
    "\<not> cl_cancelled (cn_client sample_online)"
    using sample_opening_opening by (simp_all add: about_to_open_def endpoint_def auto_reconnect_def)
qed

theorem lost_connection_reconnects_witness:
  "\<exists>s1. fold (conn_step sample_conn_env) [LoopTurn (MlCmd Reconnect []), Tick] sample_online = s1 \<and> cn_phase s1 = BackingOff [97] \<and>
    cl_states (cn_client s1) = cl_states (cn_client sample_online) @ [Disconnected, Reconnecting 1 (from_secs 2)]"
proof -
  obtain ml where ml: "cn_phase sample_online = Running ml" using sample_online_running by blast
  have off: "\<nexists>ml'. cn_phase (conn_step sample_conn_env (LoopTurn (MlCmd Reconnect [])) sample_online) = Running ml'"
    by (simp add: ml conn_turn_def ml_on_cmd_def conn_offline_def conn_defs)
  have delay: "cc_backoff (ce_config (cn_env sample_conn_env)) 1 = Some (from_secs 2)" "from_secs 0 < from_secs 2"
    using default_delay [of 1] by (simp_all add: from_secs_def nanos_per_sec_def)
  from lost_connection_reconnects [OF sample_online_reach ml off sample_online_keeps(2,1,3) delay] show ?thesis by blast
qed

text \<open>
  C36. \<open>shutdown\<close> ends the task: once cancelled, the message loop's cancellation branch, the
  wait's, and the loop's head lead to \<open>Stopped\<close> from every phase but one.  While a socket is
  being opened nothing watches the token, and the three change nothing.
\<close>

theorem shutdown_stops:
  assumes "cl_cancelled (cn_client s)" "cn_phase s \<noteq> Panicked"
  shows "case cn_phase s of
      Opening url \<Rightarrow> fold (conn_step env) [LoopTurn MlCancelled, CancelFired, Tick] s = s
    | _ \<Rightarrow> cn_phase (fold (conn_step env) [LoopTurn MlCancelled, CancelFired, Tick] s) = Stopped"
  using assms
  by (cases "cn_phase s")
    (simp_all add: wait_defs conn_top_def conn_turn_def conn_offline_def conn_defs pending_clear_def)

theorem shutdown_stops_witness:
  "cn_phase (fold (conn_step sample_conn_env) [LoopTurn MlCancelled, CancelFired, Tick]
     (sample_online\<lparr>cn_client := shutdown (cn_client sample_online)\<rparr>)) = Stopped"
proof -
  obtain ml where ml: "cn_phase sample_online = Running ml" using sample_online_running by blast
  let ?s = "sample_online\<lparr>cn_client := shutdown (cn_client sample_online)\<rparr>"
  have "cl_cancelled (cn_client ?s)" "cn_phase ?s \<noteq> Panicked" by (simp_all add: shutdown_def ml)
  from shutdown_stops [OF this, of sample_conn_env] show ?thesis by (simp add: ml del: fold_simps conn_step.simps)
qed

text \<open>
  Traffic keeps a client from reconnecting: while the loop backs off, any sequence of
  \<open>Send\<close> and \<open>WakeUp\<close> commands leaves it backing off with the same attempt, each command
  having restarted the full delay, and the frames are nowhere queued.
\<close>

theorem sends_postpone_reconnect:
  assumes "cn_phase s = BackingOff url" "cl_url (cn_client s) = Some url" "\<not> cl_cancelled (cn_client s)"
    and "cc_backoff (ce_config (cn_env env)) (cn_attempt s) = Some d" "0 < d"
    and "\<forall>c \<in> set cmds. \<not> is_disconnect c"
  shows "cn_phase (fold (conn_step env) (concat (map (\<lambda>c. [CmdReceived c, Tick]) cmds)) s) = BackingOff url \<and>
    cn_attempt (fold (conn_step env) (concat (map (\<lambda>c. [CmdReceived c, Tick]) cmds)) s) = cn_attempt s"
  using assms
proof (induction cmds arbitrary: s)
  case (Cons c cmds)
  let ?s = "conn_step env Tick (conn_step env (CmdReceived c) s)"
  have "cn_phase ?s = BackingOff url \<and> cl_url (cn_client ?s) = Some url \<and> \<not> cl_cancelled (cn_client ?s) \<and>
      cn_attempt ?s = cn_attempt s"
    using Cons.prems by (cases c) (simp_all add: wait_defs conn_top_def conn_defs is_disconnect_def)
  with Cons.IH [of ?s] Cons.prems show ?case by simp
qed simp

theorem sends_postpone_reconnect_witness:
  "cn_phase (fold (conn_step sample_conn_env) (concat (map (\<lambda>c. [CmdReceived c, Tick]) [Send ping_frame Bulk, WakeUp]))
     (sample_opening\<lparr>cn_phase := BackingOff [97], cn_attempt := 1\<rparr>)) = BackingOff [97]"
proof -
  have "cc_backoff (ce_config (cn_env sample_conn_env)) 1 = Some (from_secs 2)"
    using default_delay [of 1] by (simp add: from_secs_def nanos_per_sec_def)
  with sample_opening_opening sends_postpone_reconnect
    [of "sample_opening\<lparr>cn_phase := BackingOff [97], cn_attempt := 1\<rparr>" "[97]" sample_conn_env "from_secs 2" "[Send ping_frame Bulk, WakeUp]"]
  show ?thesis by (simp add: about_to_open_def is_disconnect_def from_secs_def nanos_per_sec_def)
qed

text \<open>
  C35. A client with the default configuration that cannot reach its endpoint retries with the
  attempt counter going up by one each time, and dies at the sixty-fourth failure: computing
  the next delay panics, instead of waiting the 30 s cap again.
\<close>

theorem unreachable_endpoint_kills_default_client:
  assumes "about_to_open url s" "cn_attempt s = 0"
    and "cc_backoff (ce_config (cn_env env)) = exponential_next_delay default_backoff" "length es = 64"
  shows "(\<forall>n < 64. about_to_open url (fold (conn_step env) (concat (map failing_round (take n es))) s) \<and>
      cn_attempt (fold (conn_step env) (concat (map failing_round (take n es))) s) = of_nat n) \<and>
    cn_phase (fold (conn_step env) (concat (map failing_round es)) s) = Panicked"
proof (intro conjI allI impI)
  fix n :: nat assume "n < 64"
  with failing_rounds [OF assms(1-3), of "take n es"] assms(4)
  show "about_to_open url (fold (conn_step env) (concat (map failing_round (take n es))) s)"
    "cn_attempt (fold (conn_step env) (concat (map failing_round (take n es))) s) = of_nat n" by simp_all
next
  from assms(4) obtain fs e where es: "es = fs @ [e]" "length fs = 63" by (cases es rule: rev_cases) auto
  let ?s = "fold (conn_step env) (concat (map failing_round fs)) s"
  from failing_rounds [OF assms(1-3), of fs] es(2) have s: "about_to_open url ?s" "cn_attempt ?s = of_nat 63" by simp_all
  have att: "cn_attempt ?s + 1 = of_nat 64" by (simp add: s(2))
  have "cc_backoff (ce_config (cn_env env)) (cn_attempt ?s + 1) = None"
    unfolding att assms(3) using default_delay [of 64] by simp
  from failing_round_panics [OF s(1) this, of e] show "cn_phase (fold (conn_step env) (concat (map failing_round es)) s) = Panicked"
    by (simp add: es(1))
qed

theorem unreachable_endpoint_kills_default_client_witness:
  "cn_phase (fold (conn_step sample_conn_env) (concat (map failing_round (replicate 64 [120]))) sample_opening) = Panicked"
  using unreachable_endpoint_kills_default_client [of "[97]" sample_opening sample_conn_env "replicate 64 [120]"]
    sample_opening_opening by simp

end
