(* ===== verification/Session.thy ===== *)
theory Session
  imports Wire Heartbeat Scheduler State Transport
begin

text \<open>
  \<open>src/ws/server/session.rs\<close> and \<open>src/ws/server/handle.rs\<close>: the loop that serves one accepted
  connection, and the handle the application keeps.

  One turn of the loop's \<open>select!\<close> is a \<open>server_event\<close>: the branch that fired, with the time
  \<open>Instant::now()\<close> reads there.  What the socket delivers comes from the socket itself.  Which
  branch fires is not determined, so theorems quantify over all event sequences.
\<close>

section \<open>Messages and commands\<close>

datatype session_cmd = SendFrame frame message_priority | CloseSession

text \<open>The receiver of the inbox may have been dropped: then sending to it is an error.\<close>

datatype server_event =
    WsReady nat bool
  | CmdReady session_cmd
  | HeartbeatDue nat

record ('h, 't, 'w) session_env =
  se_snow :: "('h, 't) snow"
  se_postcard :: postcard
  se_socket :: "('w, ws_message) websocket"
  se_max_bytes :: nat
  se_heartbeat_interval :: duration
  se_heartbeat_timeout :: duration

text \<open>
  The local variables of \<open>run_server_session\<close>, with what it sent to the inbox and what it
  published on the state channel.
\<close>

record ('h, 't, 'w) server_session =
  ss_ws :: 'w
  ss_noise :: "('h, 't) noise_session"
  ss_acc :: frame_accumulator
  ss_sched :: "frame wfq"
  ss_deadline :: nat
  ss_waiting :: bool
  ss_inbox :: "frame list"
  ss_states :: "connection_state list"

definition server_session_new ::
  "('h, 't, 'w) session_env \<Rightarrow> 'w \<Rightarrow> ('h, 't) noise_session \<Rightarrow> nat \<Rightarrow> ('h, 't, 'w) server_session" where
  "server_session_new env ws noise now =
     \<lparr>ss_ws = ws, ss_noise = noise, ss_acc = acc_new, ss_sched = wfq_new,
      ss_deadline = now + se_heartbeat_interval env, ss_waiting = False, ss_inbox = [], ss_states = []\<rparr>"

section \<open>The branches of the loop\<close>

definition server_on_frame :: "bool \<Rightarrow> frame \<Rightarrow> ('h, 't, 'w) server_session \<Rightarrow>
    loop_flow \<times> ('h, 't, 'w) server_session" where
  "server_on_frame inbox_open f s =
     (case f_kind f of
        Ping \<Rightarrow> (Continue, s\<lparr>ss_sched := enqueue (ss_sched s) pong_frame RealTime\<rparr>)
      | Pong \<Rightarrow> (Continue, s)
      | _ \<Rightarrow> if inbox_open then (Continue, s\<lparr>ss_inbox := ss_inbox s @ [f]\<rparr>) else (Break, s))"

definition server_on_ws :: "('h, 't, 'w) session_env \<Rightarrow> nat \<Rightarrow> bool \<Rightarrow> ('h, 't, 'w) server_session \<Rightarrow>
    loop_flow \<times> ('h, 't, 'w) server_session" where
  "server_on_ws env now inbox_open s =
     (case ws_next (se_socket env) (ss_ws s) of
        (Some (Inr (MBinary data)), w) \<Rightarrow>
          let s1 = s\<lparr>ss_ws := w, ss_deadline := now + se_heartbeat_interval env, ss_waiting := False\<rparr> in
          (case receive_packet (se_snow env) (se_postcard env) (se_max_bytes env) (ss_noise s1, ss_acc s1) data of
             (Inl e, ns, acc) \<Rightarrow> (Break, s1\<lparr>ss_noise := ns, ss_acc := acc\<rparr>)
           | (Inr None, ns, acc) \<Rightarrow> (Continue, s1\<lparr>ss_noise := ns, ss_acc := acc\<rparr>)
           | (Inr (Some f), ns, acc) \<Rightarrow> server_on_frame inbox_open f (s1\<lparr>ss_noise := ns, ss_acc := acc\<rparr>))
      | (_, w) \<Rightarrow> (Break, s\<lparr>ss_ws := w\<rparr>))"

text \<open>
  The loop \<open>while let Some(frame) = scheduler.next()\<close>: the result is \<open>error\<close> and the state, and
  \<open>None\<close> when the given number of turns was not enough for the loop to end.  It ends because
  nothing is enqueued meanwhile: one more turn than there are items is enough
  (\<open>server_flush_returns\<close>), so that the branch for \<open>None\<close> in \<open>server_on_cmd\<close> is never taken.
\<close>

fun server_flush :: "('h, 't, 'w) session_env \<Rightarrow> nat \<Rightarrow> ('h, 't, 'w) server_session \<Rightarrow>
    (bool \<times> ('h, 't, 'w) server_session) option" where
  "server_flush env 0 s = None"
| "server_flush env (Suc n) s =
     (case wfq_next (ss_sched s) of
        (None, q) \<Rightarrow> Some (False, s\<lparr>ss_sched := q\<rparr>)
      | (Some f, q) \<Rightarrow>
          (case send_frame (se_snow env) (se_postcard env) (se_socket env) MBinary (ss_noise s, ss_ws s) f of
             (ok, ns, w) \<Rightarrow>
               let s1 = s\<lparr>ss_sched := q, ss_noise := ns, ss_ws := w\<rparr> in
               if ok then server_flush env n s1 else Some (True, s1)))"

definition server_on_cmd :: "('h, 't, 'w) session_env \<Rightarrow> session_cmd \<Rightarrow> ('h, 't, 'w) server_session \<Rightarrow>
    loop_flow \<times> ('h, 't, 'w) server_session" where
  "server_on_cmd env cmd s =
     (case cmd of
        SendFrame f p \<Rightarrow>
          let s1 = s\<lparr>ss_sched := enqueue (ss_sched s) f p\<rparr> in
          (case server_flush env (Suc (wfq_len (ss_sched s1))) s1 of
             None \<Rightarrow> (Break, s1)
           | Some (error, s2) \<Rightarrow> (if error then Break else Continue, s2))
      | CloseSession \<Rightarrow> (Break, s))"

text \<open>A Ping that cannot be encoded or sent is not an error here.\<close>

definition server_on_heartbeat :: "('h, 't, 'w) session_env \<Rightarrow> nat \<Rightarrow> ('h, 't, 'w) server_session \<Rightarrow>
    loop_flow \<times> ('h, 't, 'w) server_session" where
  "server_on_heartbeat env now s =
     (if ss_waiting s then (Break, s)
      else
        (case send_frame (se_snow env) (se_postcard env) (se_socket env) MBinary (ss_noise s, ss_ws s) ping_frame of
           (_, ns, w) \<Rightarrow>
             (Continue, s\<lparr>ss_noise := ns, ss_ws := w, ss_waiting := True,
                          ss_deadline := now + se_heartbeat_timeout env\<rparr>)))"

fun server_handle :: "('h, 't, 'w) session_env \<Rightarrow> server_event \<Rightarrow> ('h, 't, 'w) server_session \<Rightarrow>
    loop_flow \<times> ('h, 't, 'w) server_session" where
  "server_handle env (WsReady now inbox_open) s = server_on_ws env now inbox_open s"
| "server_handle env (CmdReady cmd) s = server_on_cmd env cmd s"
| "server_handle env (HeartbeatDue now) s = server_on_heartbeat env now s"

definition server_finish :: "('h, 't, 'w) session_env \<Rightarrow> ('h, 't, 'w) server_session \<Rightarrow> ('h, 't, 'w) server_session" where
  "server_finish env s =
     s\<lparr>ss_states := ss_states s @ [Disconnected], ss_ws := snd (ws_close (se_socket env) (ss_ws s))\<rparr>"

text \<open>The loop on a sequence of events; \<open>Continue\<close> says it is still running after them.\<close>

definition run_server_session :: "('h, 't, 'w) session_env \<Rightarrow> server_event list \<Rightarrow> ('h, 't, 'w) server_session \<Rightarrow>
    loop_flow \<times> ('h, 't, 'w) server_session" where
  "run_server_session env es s =
     (case run_turns (server_handle env) es s of
        (Break, s1) \<Rightarrow> (Break, server_finish env s1)
      | (Continue, s1) \<Rightarrow> (Continue, s1))"

section \<open>The handle\<close>

text \<open>
  The command channel is a parameter (\<open>mpsc_sender\<close>).  The handle's three fields are the
  session's id, that channel and the current value of the state channel.
\<close>

record ('i, 'c) server_session_handle =
  sh_id :: 'i
  sh_cmd_tx :: 'c
  sh_state :: connection_state

definition respond :: "('c, session_cmd) mpsc_sender \<Rightarrow> ('i, 'c) server_session_handle \<Rightarrow> u32 \<Rightarrow> byte list \<Rightarrow>
    (transport_error + unit) \<times> ('i, 'c) server_session_handle" where
  "respond mp h rid data =
     (case try_send_cmd mp (sh_cmd_tx h) (SendFrame \<lparr>f_id = rid, f_kind = Message, f_data = data\<rparr> Normal) of
        (r, tx) \<Rightarrow> (r, h\<lparr>sh_cmd_tx := tx\<rparr>))"

definition push_event :: "('c, session_cmd) mpsc_sender \<Rightarrow> ('i, 'c) server_session_handle \<Rightarrow> byte list \<Rightarrow>
    message_priority \<Rightarrow> (transport_error + unit) \<times> ('i, 'c) server_session_handle" where
  "push_event mp h data priority =
     (case try_send_cmd mp (sh_cmd_tx h) (SendFrame \<lparr>f_id = 0, f_kind = Event, f_data = data\<rparr> priority) of
        (r, tx) \<Rightarrow> (r, h\<lparr>sh_cmd_tx := tx\<rparr>))"

definition close_session :: "('c, session_cmd) mpsc_sender \<Rightarrow> ('i, 'c) server_session_handle \<Rightarrow>
    ('i, 'c) server_session_handle" where
  "close_session mp h = h\<lparr>sh_cmd_tx := snd (try_send mp (sh_cmd_tx h) CloseSession)\<rparr>"

definition handle_state :: "('i, 'c) server_session_handle \<Rightarrow> connection_state" where
  "handle_state h = sh_state h"

definition is_alive :: "('i, 'c) server_session_handle \<Rightarrow> bool" where
  "is_alive h = (case handle_state h of Online \<Rightarrow> True | _ \<Rightarrow> False)"

text \<open>
  \<open>Drop\<close>, given what \<open>Arc::strong_count\<close> reads.  The clones share one channel.
\<close>

definition drop_handle :: "('c, session_cmd) mpsc_sender \<Rightarrow> nat \<Rightarrow> 'c \<Rightarrow> 'c" where
  "drop_handle mp strong_count tx =
     (if strong_count = 1 then snd (try_send mp tx CloseSession) else tx)"

section \<open>Sending\<close>

lemma wfq_next_wf: "wfq_wf q \<Longrightarrow> wfq_next q = (r, q') \<Longrightarrow> wfq_wf q'"
  by (rule wfq.nxt_ok)

lemma wfq_next_shrinks: "wfq_wf q \<Longrightarrow> wfq_next q = (Some x, q') \<Longrightarrow> wfq_len q = Suc (wfq_len q')"
  using wfq.nxt_Some [of q x q'] by (simp add: wfq_len_items)

lemma server_flush_enough:
  "wfq_wf (ss_sched s) \<Longrightarrow> wfq_len (ss_sched s) < m \<Longrightarrow> wfq_len (ss_sched s) < n \<Longrightarrow>
   server_flush env m s = server_flush env n s"
proof (induction m arbitrary: n s)
  case (Suc m)
  then obtain n' where n: "n = Suc n'" by (cases n) auto
  obtain r q where nx: "wfq_next (ss_sched s) = (r, q)" by fastforce
  show ?case
  proof (cases r)
    case (Some f)
    with wfq_next_shrinks [OF Suc.prems(1)] nx Suc.prems n have "wfq_len q < m" "wfq_len q < n'" by auto
    with Suc.IH [where n = n'] wfq_next_wf [OF Suc.prems(1) nx] nx Some n show ?thesis
      by (simp add: Let_def split: prod.splits)
  qed (simp add: nx n)
qed simp

lemma server_flush_returns:
  "wfq_wf (ss_sched s) \<Longrightarrow> wfq_len (ss_sched s) < n \<Longrightarrow> \<exists>e s'. server_flush env n s = Some (e, s')"
proof (induction n arbitrary: s)
  case (Suc n)
  obtain r q where nx: "wfq_next (ss_sched s) = (r, q)" by fastforce
  show ?case
  proof (cases r)
    case (Some f)
    with wfq_next_shrinks [OF Suc.prems(1)] nx Suc.prems(2) have "wfq_len q < n" by auto
    with Suc.IH wfq_next_wf [OF Suc.prems(1) nx] nx Some show ?thesis by (auto simp: Let_def split: prod.splits)
  qed (auto simp: nx)
qed simp

lemma server_flush_empties:
  "wfq_wf (ss_sched s) \<Longrightarrow> wfq_len (ss_sched s) < n \<Longrightarrow> server_flush env n s = Some (False, s') \<Longrightarrow>
   wfq_len (ss_sched s') = 0"
proof (induction n arbitrary: s)
  case (Suc n)
  obtain r q where nx: "wfq_next (ss_sched s) = (r, q)" by fastforce
  show ?case
  proof (cases r)
    case None
    with nx wfq.nxt_None [OF Suc.prems(1), of q] Suc.prems(3) show ?thesis by (auto simp: wfq_len_items)
  next
    case (Some f)
    with wfq_next_shrinks [OF Suc.prems(1)] nx Suc.prems(2) have "wfq_len q < n" by auto
    obtain ok ns w where snd: "send_frame (se_snow env) (se_postcard env) (se_socket env) MBinary
        (ss_noise s, ss_ws s) f = (ok, ns, w)" by (metis prod_cases3)
    let ?s1 = "s\<lparr>ss_sched := q, ss_noise := ns, ss_ws := w\<rparr>"
    from Suc.prems(3) nx Some snd have "server_flush env n ?s1 = Some (False, s')" by (simp add: Let_def split: if_splits)
    with Suc.IH [of ?s1] wfq_next_wf [OF Suc.prems(1) nx] \<open>wfq_len q < n\<close> show ?thesis by simp
  qed
qed simp

lemma server_flush_frame:
  "server_flush env n s = Some (r, s') \<Longrightarrow>
   ss_acc s' = ss_acc s \<and> ss_deadline s' = ss_deadline s \<and> ss_waiting s' = ss_waiting s \<and>
   ss_inbox s' = ss_inbox s \<and> ss_states s' = ss_states s"
  by (induction n arbitrary: s) (fastforce simp: Let_def split: prod.splits option.splits if_splits)+

lemma server_flush_wf:
  "server_flush env n s = Some (r, s') \<Longrightarrow> wfq_wf (ss_sched s) \<Longrightarrow> wfq_wf (ss_sched s')"
  by (induction n arbitrary: s) (auto simp: Let_def split: prod.splits option.splits if_splits dest: wfq_next_wf)

text \<open>
  On a working socket the loop puts out, frame by frame, the packets of what \<open>drain\<close> takes
  from the scheduler.
\<close>

lemma server_flush_drain:
  assumes "sends_ok (se_socket env) sent"
  shows "wfq_wf (ss_sched s) \<Longrightarrow> wfq_len (ss_sched s) < n \<Longrightarrow> drain n wfq_next (ss_sched s) = (fs, q') \<Longrightarrow>
    try_map (pack_frame (se_snow env) (se_postcard env)) (ss_noise s) fs = (Inr pss, ns') \<Longrightarrow>
    \<exists>w'. server_flush env n s = Some (False, s\<lparr>ss_sched := q', ss_noise := ns', ss_ws := w'\<rparr>) \<and>
      sent w' = sent (ss_ws s) @ map MBinary (concat pss)"
proof (induction n arbitrary: s fs pss)
  case (Suc n)
  from Suc.prems(3) show ?case
  proof (cases rule: drain_Suc_cases)
    case 1
    with Suc.prems(4) show ?thesis by (intro exI [of _ "ss_ws s"]) simp
  next
    case (2 f q1 fs1)
    with Suc.prems(4) obtain ps pss1 ns1 where pk:
      "pack_frame (se_snow env) (se_postcard env) (ss_noise s) f = (Inr ps, ns1)"
      "try_map (pack_frame (se_snow env) (se_postcard env)) ns1 fs1 = (Inr pss1, ns')" "pss = ps # pss1"
      by (auto split: prod.splits sum.splits)
    from send_chunks_ok [OF assms, of MBinary "ss_ws s" ps] obtain w1 where
      w1: "send_chunks (se_socket env) MBinary (ss_ws s) ps = (True, w1)"
        "sent w1 = sent (ss_ws s) @ map MBinary ps" by blast
    let ?s1 = "s\<lparr>ss_sched := q1, ss_noise := ns1, ss_ws := w1\<rparr>"
    have "server_flush env (Suc n) s = server_flush env n ?s1"
      using 2(1) w1(1) send_frame_pack [OF pk(1), of "se_socket env" MBinary "ss_ws s"] by (simp add: Let_def)
    moreover have "wfq_len q1 < n" using wfq_next_shrinks [OF Suc.prems(1) 2(1)] Suc.prems(2) by simp
    then obtain w' where "server_flush env n ?s1 = Some (False, ?s1\<lparr>ss_sched := q', ss_noise := ns', ss_ws := w'\<rparr>)"
      "sent w' = sent w1 @ map MBinary (concat pss1)"
      using Suc.IH [of ?s1 fs1 pss1] wfq_next_wf [OF Suc.prems(1) 2(1)] 2(2) pk(2) by auto
    ultimately show ?thesis using w1(2) pk(3) by (intro exI [of _ w']) simp
  qed
qed simp

lemma sum_list_mset_cost: "mset xs = mset ys \<Longrightarrow> sum_list (map f xs) = (sum_list (map f ys) :: nat)"
  by (metis mset_map sum_mset_sum_list)

lemma server_send_packs:
  assumes "sends_ok (se_socket env) sent" "wfq_wf (ss_sched s)"
    and "\<forall>g \<in># add_mset f (wfq_items (ss_sched s)). frame_fits (se_postcard env) m g"
    and "frame_linked (se_snow env) pair (se_postcard env)
      ((\<Sum>g \<in># add_mset f (wfq_items (ss_sched s)). frame_cost (se_postcard env) g) + k) (ss_noise s) peer"
  shows "\<exists>s' pss fs peer'. server_on_cmd env (SendFrame f p) s = (Continue, s') \<and>
    try_map (pack_frame (se_snow env) (se_postcard env)) (ss_noise s) fs = (Inr pss, ss_noise s') \<and>
    sent (ss_ws s') = sent (ss_ws s) @ map MBinary (concat pss) \<and>
    feed_chunks (receive_packet (se_snow env) (se_postcard env) m) peer (concat pss) = (Inr fs, peer') \<and>
    fs = fst (drain (Suc (Suc (wfq_len (ss_sched s)))) wfq_next (enqueue (ss_sched s) f p)) \<and>
    mset fs = add_mset f (wfq_items (ss_sched s)) \<and> wfq_items (ss_sched s') = {#} \<and>
    frame_linked (se_snow env) pair (se_postcard env) k (ss_noise s') peer'"
proof -
  let ?q = "enqueue (ss_sched s) f p"
  have wf: "wfq_wf ?q" and items: "wfq_items ?q = add_mset f (wfq_items (ss_sched s))"
    using assms(2) by (simp_all add: wfq_items_enqueue)
  then have len: "wfq_len ?q = Suc (wfq_len (ss_sched s))" by (simp add: wfq_len_items)
  obtain fs q' where dr: "drain (Suc (wfq_len ?q)) wfq_next ?q = (fs, q')" by fastforce
  from wfq.drain_complete [OF wf _ dr] have fs: "mset fs = wfq_items ?q" "wfq_items q' = {#}"
    by (simp_all add: wfq_len_items)
  have "sum_list (map (frame_cost (se_postcard env)) fs) = (\<Sum>g \<in># wfq_items ?q. frame_cost (se_postcard env) g)"
    by (metis fs(1) mset_map sum_mset_sum_list)
  with assms(4) items have link: "frame_linked (se_snow env) pair (se_postcard env)
      (sum_list (map (frame_cost (se_postcard env)) fs) + k) (ss_noise s) peer" by simp
  have "\<forall>g \<in> set fs. frame_fits (se_postcard env) m g"
    using assms(3) fs(1) items by (metis set_mset_mset)
  from wire.pack_recv_all [OF link this] obtain pss ns' peer' where
    tr: "try_map (pack_frame (se_snow env) (se_postcard env)) (ss_noise s) fs = (Inr pss, ns')"
      "feed_chunks (receive_packet (se_snow env) (se_postcard env) m) peer (concat pss) = (Inr fs, peer')"
      "frame_linked (se_snow env) pair (se_postcard env) k ns' peer'" by blast
  from server_flush_drain [OF assms(1), of "s\<lparr>ss_sched := ?q\<rparr>" "Suc (wfq_len ?q)" fs q' pss ns'] wf dr tr(1)
  obtain w' where
    "server_flush env (Suc (wfq_len ?q)) (s\<lparr>ss_sched := ?q\<rparr>) =
       Some (False, s\<lparr>ss_sched := q', ss_noise := ns', ss_ws := w'\<rparr>)"
    "sent w' = sent (ss_ws s) @ map MBinary (concat pss)" by (auto simp del: server_flush.simps drain.simps)
  with tr fs items dr len show ?thesis
    by (intro exI [of _ "s\<lparr>ss_sched := q', ss_noise := ns', ss_ws := w'\<rparr>"] exI [of _ pss]
        exI [of _ fs] exI [of _ peer'])
      (simp add: server_on_cmd_def Let_def del: server_flush.simps drain.simps)
qed

lemma server_send_packets:
  assumes "sends_ok (se_socket env) sent" "wfq_wf (ss_sched s)"
    and "\<forall>g \<in># add_mset f (wfq_items (ss_sched s)). frame_fits (se_postcard env) m g"
    and "frame_linked (se_snow env) pair (se_postcard env)
      ((\<Sum>g \<in># add_mset f (wfq_items (ss_sched s)). frame_cost (se_postcard env) g) + k) (ss_noise s) peer"
  shows "\<exists>s' packets fs peer'. server_on_cmd env (SendFrame f p) s = (Continue, s') \<and>
    sent (ss_ws s') = sent (ss_ws s) @ map MBinary packets \<and>
    feed_chunks (receive_packet (se_snow env) (se_postcard env) m) peer packets = (Inr fs, peer') \<and>
    fs = fst (drain (Suc (Suc (wfq_len (ss_sched s)))) wfq_next (enqueue (ss_sched s) f p)) \<and>
    mset fs = add_mset f (wfq_items (ss_sched s)) \<and> wfq_items (ss_sched s') = {#} \<and>
    frame_linked (se_snow env) pair (se_postcard env) k (ss_noise s') peer'"
  using server_send_packs [OF assms, of p] by blast

section \<open>Reachable states\<close>

text \<open>What an event means to the heartbeat, and the states of a running session.\<close>

fun server_beat :: "server_event \<Rightarrow> beat" where
  "server_beat (WsReady now inbox_open) = Heard now"
| "server_beat (CmdReady cmd) = Quiet"
| "server_beat (HeartbeatDue now) = Beat now"

definition server_reach :: "('h, 't, 'w) session_env \<Rightarrow> 'w \<Rightarrow> ('h, 't) noise_session \<Rightarrow> nat \<Rightarrow>
    ('h, 't, 'w) server_session \<Rightarrow> nat \<Rightarrow> bool" where
  "server_reach env ws ns t0 = loop_reach (server_handle env) server_beat ss_deadline (server_session_new env ws ns t0) t0"

lemma server_on_ws_Continue:
  assumes "server_on_ws env now inbox_open s = (Continue, s')"
  obtains data r ns acc where
    "receive_packet (se_snow env) (se_postcard env) (se_max_bytes env) (ss_noise s, ss_acc s) data = (Inr r, ns, acc)"
    "ss_sched s' \<in> {ss_sched s, enqueue (ss_sched s) pong_frame RealTime}" "ss_acc s' = acc"
    "\<not> ss_waiting s'" "ss_deadline s' = now + se_heartbeat_interval env" "ss_states s' = ss_states s"
  using assms unfolding server_on_ws_def server_on_frame_def
  by (auto simp: Let_def split: prod.splits option.splits sum.splits ws_message.splits frame_kind.splits if_splits)

lemma server_on_cmd_frame:
  "server_on_cmd env cmd s = (r, s') \<Longrightarrow>
   ss_acc s' = ss_acc s \<and> ss_deadline s' = ss_deadline s \<and> ss_waiting s' = ss_waiting s \<and>
   ss_inbox s' = ss_inbox s \<and> ss_states s' = ss_states s"
  by (auto simp: server_on_cmd_def Let_def simp del: server_flush.simps
      split: session_cmd.splits prod.splits option.splits dest: server_flush_frame)

interpretation server_hb: heartbeat_loop "server_handle env" server_beat ss_deadline ss_waiting
    "se_heartbeat_interval env" "se_heartbeat_timeout env"
  for env :: "('h, 't, 'w) session_env"
proof unfold_locales
  fix e now and s s' :: "('h, 't, 'w) server_session"
  assume "server_beat e = Heard now" "server_handle env e s = (Continue, s')"
  then show "\<not> ss_waiting s' \<and> ss_deadline s' = now + se_heartbeat_interval env"
    by (cases e) (auto elim: server_on_ws_Continue)
next
  fix e and s s' :: "('h, 't, 'w) server_session"
  assume "server_beat e = Quiet" "server_handle env e s = (Continue, s')"
  then show "ss_waiting s' = ss_waiting s \<and> ss_deadline s' = ss_deadline s"
    by (cases e) (auto dest: server_on_cmd_frame)
next
  fix e now r and s s' :: "('h, 't, 'w) server_session"
  assume "server_beat e = Beat now" "server_handle env e s = (r, s')"
  then show "if ss_waiting s then r = Break
      else r = Continue \<and> ss_waiting s' \<and> ss_deadline s' = now + se_heartbeat_timeout env"
    by (cases e) (auto simp: server_on_heartbeat_def split: prod.splits)
qed

lemma server_flush_input:
  "se_socket env = script_socket \<Longrightarrow> server_flush env n s = Some (r, s') \<Longrightarrow> fst (ss_ws s') = fst (ss_ws s)"
  by (induction n arbitrary: s) (auto simp: Let_def split: prod.splits option.splits if_splits dest: send_frame_script_input)

lemma server_on_cmd_input:
  "se_socket env = script_socket \<Longrightarrow> server_on_cmd env cmd s = (r, s') \<Longrightarrow> fst (ss_ws s') = fst (ss_ws s)"
  by (auto simp: server_on_cmd_def Let_def simp del: server_flush.simps
      split: session_cmd.splits prod.splits option.splits dest: server_flush_input)

text \<open>A turn that reads takes one message and sends nothing, so a queued Pong stays queued.\<close>

lemma server_reads_input:
  assumes "se_socket env = script_socket"
  shows "run_turns (server_handle env) (map (\<lambda>t. WsReady t True) ts) s = (Continue, s') \<Longrightarrow>
    ss_ws s' = (drop (length ts) (fst (ss_ws s)), snd (ss_ws s))"
proof (induction ts arbitrary: s)
  case (Cons t ts)
  obtain r s1 where step: "server_handle env (WsReady t True) s = (r, s1)" by fastforce
  with Cons.prems have r: "r = Continue" and rest: "run_turns (server_handle env) (map (\<lambda>t. WsReady t True) ts) s1 = (Continue, s')"
    by (cases r; simp)+
  obtain inp out where ws: "ss_ws s = (inp, out)" by fastforce
  from step r assms ws have "ss_ws s1 = (tl inp, out)"
    by (cases inp) (auto simp: server_on_ws_def server_on_frame_def Let_def
        split: prod.splits option.splits sum.splits ws_message.splits frame_kind.splits if_splits)
  with Cons.IH [OF rest] ws show ?case by (simp add: drop_Suc)
qed simp

definition session_inv :: "('h, 't, 'w) session_env \<Rightarrow> ('h, 't, 'w) server_session \<Rightarrow> bool" where
  "session_inv env s \<longleftrightarrow>
     wfq_wf (ss_sched s) \<and> acc_wf (se_max_bytes env) (ss_acc s) \<and> ss_states s = []"

lemma session_inv_new: "session_inv env (server_session_new env ws ns t0)"
  by (simp add: session_inv_def server_session_new_def)

lemma session_inv_on_ws:
  "session_inv env s \<Longrightarrow> server_on_ws env now inbox_open s = (Continue, s') \<Longrightarrow> session_inv env s'"
  by (erule server_on_ws_Continue) (auto simp: session_inv_def dest: receive_packet_acc_wf)

lemma session_inv_on_cmd:
  "session_inv env s \<Longrightarrow> server_on_cmd env cmd s = (Continue, s') \<Longrightarrow> session_inv env s'"
  by (auto simp: server_on_cmd_def session_inv_def Let_def simp del: server_flush.simps
      split: session_cmd.splits prod.splits option.splits if_splits dest: server_flush_frame server_flush_wf)

lemma session_inv_on_heartbeat:
  "session_inv env s \<Longrightarrow> server_on_heartbeat env now s = (Continue, s') \<Longrightarrow> session_inv env s'"
  by (auto simp: server_on_heartbeat_def session_inv_def split: prod.splits if_splits)

lemma session_inv_handle:
  "session_inv env s \<Longrightarrow> server_handle env e s = (Continue, s') \<Longrightarrow> session_inv env s'"
  by (cases e) (auto intro: session_inv_on_ws session_inv_on_cmd session_inv_on_heartbeat)

lemma server_reach_inv: "server_reach env ws ns t0 s t \<Longrightarrow> session_inv env s"
  unfolding server_reach_def
  by (induction rule: loop_reach.induct) (auto intro: session_inv_new session_inv_handle)

section \<open>Receiving\<close>

definition app_frame :: "frame \<Rightarrow> bool" where
  "app_frame f \<longleftrightarrow> f_kind f = Message \<or> f_kind f = Event"

definition queue_pongs :: "frame list \<Rightarrow> frame wfq \<Rightarrow> frame wfq" where
  "queue_pongs fs q = fold (\<lambda>f q. if f_kind f = Ping then enqueue q pong_frame RealTime else q) fs q"

lemma server_on_frame_open:
  "server_on_frame True f s =
     (Continue, s\<lparr>ss_sched := queue_pongs [f] (ss_sched s), ss_inbox := ss_inbox s @ filter app_frame [f]\<rparr>)"
  by (cases "f_kind f") (simp_all add: server_on_frame_def queue_pongs_def app_frame_def)

lemma server_receive_script:
  assumes "se_socket env = script_socket"
  shows "feed_chunks (receive_packet (se_snow env) (se_postcard env) (se_max_bytes env)) (ss_noise s, ss_acc s) packets =
      (Inr fs, ns', acc') \<Longrightarrow>
    ss_ws s = (map (\<lambda>p. Inr (MBinary p)) packets @ rest, out) \<Longrightarrow> length ts = length packets \<Longrightarrow>
    \<exists>s'. run_turns (server_handle env) (map (\<lambda>t. WsReady t True) ts) s = (Continue, s') \<and>
      ss_inbox s' = ss_inbox s @ filter app_frame fs \<and> ss_noise s' = ns' \<and> ss_acc s' = acc' \<and>
      ss_ws s' = (rest, out) \<and> ss_sched s' = queue_pongs fs (ss_sched s)"
proof (induction packets arbitrary: s fs ts)
  case Nil
  then show ?case by (simp add: queue_pongs_def)
next
  case (Cons p packets)
  from Cons.prems(3) obtain t ts' where ts: "ts = t # ts'" "length ts' = length packets" by (cases ts) auto
  from Cons.prems(1) obtain r ns acc fs1 where
    step: "receive_packet (se_snow env) (se_postcard env) (se_max_bytes env) (ss_noise s, ss_acc s) p = (Inr r, ns, acc)"
    and rest: "feed_chunks (receive_packet (se_snow env) (se_postcard env) (se_max_bytes env)) (ns, acc) packets = (Inr fs1, ns', acc')"
    and fs: "fs = (case r of None \<Rightarrow> fs1 | Some f \<Rightarrow> f # fs1)"
    by (auto split: prod.splits sum.splits)
  let ?fs = "case r of None \<Rightarrow> [] | Some f \<Rightarrow> [f]"
  let ?s1 = "s\<lparr>ss_ws := (map (\<lambda>p. Inr (MBinary p)) packets @ rest, out),
      ss_deadline := t + se_heartbeat_interval env, ss_waiting := False, ss_noise := ns, ss_acc := acc,
      ss_sched := queue_pongs ?fs (ss_sched s), ss_inbox := ss_inbox s @ filter app_frame ?fs\<rparr>"
  have "server_handle env (WsReady t True) s = (Continue, ?s1)"
    using step Cons.prems(2) by (cases r) (simp_all add: server_on_ws_def assms server_on_frame_open queue_pongs_def Let_def)
  moreover from Cons.IH [of ?s1 fs1 ts'] rest ts(2) obtain s' where
    "run_turns (server_handle env) (map (\<lambda>t. WsReady t True) ts') ?s1 = (Continue, s')"
    "ss_inbox s' = ss_inbox s @ filter app_frame ?fs @ filter app_frame fs1" "ss_noise s' = ns'" "ss_acc s' = acc'"
    "ss_ws s' = (rest, out)" "ss_sched s' = queue_pongs fs1 (queue_pongs ?fs (ss_sched s))" by auto
  ultimately show ?case using ts(1) fs
    by (intro exI [of _ s']) (cases r; simp add: queue_pongs_def)
qed

section \<open>Runs\<close>

lemma server_handle_states:
  "server_handle env e s = (r, s') \<Longrightarrow> ss_states s' = ss_states s"
  by (cases e)
    (auto simp: server_on_ws_def server_on_frame_def server_on_heartbeat_def Let_def
      dest: server_on_cmd_frame
      split: prod.splits option.splits sum.splits ws_message.splits frame_kind.splits if_splits)

lemma run_server_session_states:
  assumes "run_server_session env es s = (r, s')"
  shows "ss_states s' = ss_states s @ (if r = Break then [Disconnected] else [])"
proof -
  obtain r1 s1 where run: "run_turns (server_handle env) es s = (r1, s1)" by fastforce
  have "ss_states s1 = ss_states s"
    by (rule run_turns_preserves [OF _ run]) (rule server_handle_states)
  with run assms show ?thesis
    by (cases r1) (auto simp: run_server_session_def server_finish_def)
qed

section \<open>Clones of a handle\<close>

text \<open>The handles of a session over time, one operation at a time: the count and the channel.\<close>

datatype handle_op = CloneHandle | DropHandle

fun handle_ops :: "('c, session_cmd) mpsc_sender \<Rightarrow> nat \<times> 'c \<Rightarrow> handle_op list \<Rightarrow> (nat \<times> 'c) option" where
  "handle_ops mp (n, tx) [] = Some (n, tx)"
| "handle_ops mp (n, tx) (op # ops) =
     (if n = 0 then None
      else case op of
        CloneHandle \<Rightarrow> handle_ops mp (Suc n, tx) ops
      | DropHandle \<Rightarrow> handle_ops mp (n - 1, drop_handle mp n tx) ops)"

lemma handle_ops_dead: "handle_ops mp (0, tx) ops = Some r \<Longrightarrow> r = (0, tx)"
  by (cases ops) auto

lemma handle_ops_close:
  "handle_ops mp (n, tx) ops = Some (m, tx') \<Longrightarrow> 0 < n \<Longrightarrow>
   tx' = (if m = 0 then snd (try_send mp tx CloseSession) else tx)"
proof (induction ops arbitrary: n tx)
  case (Cons op ops)
  then show ?case
    by (cases op; cases "n = 1") (auto simp: drop_handle_def dest: handle_ops_dead)
qed auto

text \<open>
  Two threads may both read the count before either release takes effect: reading and
  releasing are two steps.
\<close>

datatype drop_step = ReadCount | Release

fun drop_steps :: "('c, session_cmd) mpsc_sender \<Rightarrow> nat \<times> 'c \<Rightarrow> drop_step list \<Rightarrow> nat \<times> 'c" where
  "drop_steps mp (n, tx) [] = (n, tx)"
| "drop_steps mp (n, tx) (ReadCount # ss) = drop_steps mp (n, drop_handle mp n tx) ss"
| "drop_steps mp (n, tx) (Release # ss) = drop_steps mp (n - 1, tx) ss"

section \<open>Concrete environment for the witnesses\<close>

definition sample_env :: "(nat, nat, (rstr + ws_message) list \<times> ws_message list) session_env" where
  "sample_env = \<lparr>se_snow = sample_snow, se_postcard = sample_postcard, se_socket = script_socket,
     se_max_bytes = 4194304, se_heartbeat_interval = 30, se_heartbeat_timeout = 10\<rparr>"

definition sample_session :: "(nat, nat, (rstr + ws_message) list \<times> ws_message list) server_session" where
  "sample_session = server_session_new sample_env ([], []) \<lparr>ns_state = Some (Transport 9)\<rparr> 0"

lemma sample_env_simps [simp]:
  "se_snow sample_env = sample_snow" "se_postcard sample_env = sample_postcard"
  "se_socket sample_env = script_socket" "se_max_bytes sample_env = 4194304"
  "se_heartbeat_interval sample_env = 30" "se_heartbeat_timeout sample_env = 10"
  by (simp_all add: sample_env_def)

lemma sample_session_simps [simp]:
  "ss_ws sample_session = ([], [])" "ss_noise sample_session = \<lparr>ns_state = Some (Transport 9)\<rparr>"
  "ss_acc sample_session = acc_new" "ss_sched sample_session = wfq_new" "ss_deadline sample_session = 30"
  "ss_waiting sample_session = False" "ss_inbox sample_session = []" "ss_states sample_session = []"
  by (simp_all add: sample_session_def server_session_new_def)

lemma sample_linked:
  "k \<le> n \<Longrightarrow> frame_linked sample_snow sample_pair sample_postcard k
     \<lparr>ns_state = Some (Transport n)\<rparr> (\<lparr>ns_state = Some (Transport n)\<rparr>, acc_new)"
  by (simp add: frame_linked_def sample_postcard_ok sample_noise_paired)

section \<open>Properties\<close>

text \<open>
  C18. A Send command on a working connection reaches the peer: the loop keeps running, the
  scheduler is left empty, and what it wrote to the socket are the packets that the peer's
  receive path turns into exactly the frames that were queued, the new one included, in the
  order of the fair queue.
\<close>

theorem server_send_reaches_peer:
  assumes "sends_ok (se_socket env) sent" "wfq_wf (ss_sched s)"
    and "\<forall>g \<in># add_mset f (wfq_items (ss_sched s)). frame_fits (se_postcard env) m g"
    and "frame_linked (se_snow env) pair (se_postcard env)
      ((\<Sum>g \<in># add_mset f (wfq_items (ss_sched s)). frame_cost (se_postcard env) g) + k) (ss_noise s) peer"
  shows "\<exists>s' packets fs peer'. server_on_cmd env (SendFrame f p) s = (Continue, s') \<and>
    sent (ss_ws s') = sent (ss_ws s) @ map MBinary packets \<and>
    feed_chunks (receive_packet (se_snow env) (se_postcard env) m) peer packets = (Inr fs, peer') \<and>
    fs = fst (drain (Suc (Suc (wfq_len (ss_sched s)))) wfq_next (enqueue (ss_sched s) f p)) \<and>
    mset fs = add_mset f (wfq_items (ss_sched s)) \<and> wfq_items (ss_sched s') = {#} \<and>
    frame_linked (se_snow env) pair (se_postcard env) k (ss_noise s') peer'"
  using assms by (rule server_send_packets)

theorem server_send_reaches_peer_witness:
  "\<exists>s' packets fs peer'.
    server_on_cmd sample_env (SendFrame \<lparr>f_id = 7, f_kind = Message, f_data = [1, 2]\<rparr> Normal) sample_session =
      (Continue, s') \<and>
    feed_chunks (receive_packet sample_snow sample_postcard 100) (\<lparr>ns_state = Some (Transport 9)\<rparr>, acc_new) packets =
      (Inr fs, peer') \<and>
    snd (ss_ws s') = map MBinary packets \<and> mset fs = {#\<lparr>f_id = 7, f_kind = Message, f_data = [1, 2]\<rparr>#}"
proof -
  let ?f = "\<lparr>f_id = 7, f_kind = Message, f_data = [1, 2]\<rparr> :: frame"
  have new: "wfq_items (wfq_new :: frame wfq) = {#}"
    by (simp add: wfq_items_def wfq_new_def prio_count_def eval_nat_numeral)
  have cost: "frame_cost sample_postcard ?f = 1" by (simp add: frame_cost_def encode_frame_def)
  have fits: "frame_fits sample_postcard 100 ?f" by (simp add: frame_fits_def)
  have "frame_linked sample_snow sample_pair sample_postcard (1 + 8) \<lparr>ns_state = Some (Transport 9)\<rparr>
      (\<lparr>ns_state = Some (Transport 9)\<rparr>, acc_new)" by (rule sample_linked) simp
  moreover have "sends_ok (se_socket sample_env) snd" by (simp add: script_sends_ok)
  moreover have "wfq_wf (ss_sched sample_session)" by simp
  ultimately show ?thesis
    using server_send_reaches_peer [of sample_env snd sample_session ?f 100 sample_pair 8
      "(\<lparr>ns_state = Some (Transport 9)\<rparr>, acc_new)" Normal] cost fits
    by (auto simp: new simp del: drain.simps split_paired_Ex) (intro exI conjI, assumption, rule refl)
qed

text \<open>
  C9. What the peer sends reaches the application: of any frames the peer packs, the session
  reads them all without ending, hands the requests and events to the inbox in order and once
  each, answers every Ping with one queued Pong, swallows Pongs, and sends nothing itself.
\<close>

theorem server_inbox_complete:
  assumes "frame_linked (se_snow env) pair (se_postcard env)
      (sum_list (map (frame_cost (se_postcard env)) fs) + k) peer (ss_noise s, ss_acc s)"
    and "\<forall>f \<in> set fs. frame_fits (se_postcard env) (se_max_bytes env) f"
    and "se_socket env = script_socket"
  shows "\<exists>pss peer'. try_map (pack_frame (se_snow env) (se_postcard env)) peer fs = (Inr pss, peer') \<and>
    (\<forall>ts rest out. length ts = length (concat pss) \<longrightarrow>
      (\<exists>s'. run_server_session env (map (\<lambda>t. WsReady t True) ts)
          (s\<lparr>ss_ws := (map (\<lambda>p. Inr (MBinary p)) (concat pss) @ rest, out)\<rparr>) = (Continue, s') \<and>
        ss_inbox s' = ss_inbox s @ filter app_frame fs \<and>
        ss_sched s' = queue_pongs fs (ss_sched s) \<and> ss_ws s' = (rest, out) \<and>
        frame_linked (se_snow env) pair (se_postcard env) k peer' (ss_noise s', ss_acc s')))"
proof -
  from wire.pack_recv_all [OF assms(1,2)] obtain pss peer' r' where
    pk: "try_map (pack_frame (se_snow env) (se_postcard env)) peer fs = (Inr pss, peer')"
      "feed_chunks (receive_packet (se_snow env) (se_postcard env) (se_max_bytes env)) (ss_noise s, ss_acc s)
        (concat pss) = (Inr fs, r')"
      "frame_linked (se_snow env) pair (se_postcard env) k peer' r'" by blast
  show ?thesis
  proof (rule exI [of _ pss], rule exI [of _ peer'], intro conjI allI impI)
    fix ts :: "nat list" and rest out
    assume "length ts = length (concat pss)"
    with server_receive_script [OF assms(3), of "s\<lparr>ss_ws := (map (\<lambda>p. Inr (MBinary p)) (concat pss) @ rest, out)\<rparr>"
        "concat pss" fs "fst r'" "snd r'" rest out ts] pk(2,3)
    show "\<exists>s'. run_server_session env (map (\<lambda>t. WsReady t True) ts)
          (s\<lparr>ss_ws := (map (\<lambda>p. Inr (MBinary p)) (concat pss) @ rest, out)\<rparr>) = (Continue, s') \<and>
        ss_inbox s' = ss_inbox s @ filter app_frame fs \<and>
        ss_sched s' = queue_pongs fs (ss_sched s) \<and> ss_ws s' = (rest, out) \<and>
        frame_linked (se_snow env) pair (se_postcard env) k peer' (ss_noise s', ss_acc s')"
      by (auto simp: run_server_session_def)
  qed (fact pk(1))
qed

theorem server_inbox_complete_witness:
  "\<exists>pss peer'. try_map (pack_frame sample_snow sample_postcard) \<lparr>ns_state = Some (Transport 9)\<rparr>
      [\<lparr>f_id = 7, f_kind = Message, f_data = [1]\<rparr>, \<lparr>f_id = 0, f_kind = Ping, f_data = []\<rparr>] = (Inr pss, peer') \<and>
    (\<exists>s'. run_server_session sample_env (map (\<lambda>t. WsReady t True) (replicate (length (concat pss)) 5))
        (sample_session\<lparr>ss_ws := (map (\<lambda>p. Inr (MBinary p)) (concat pss) @ [], [])\<rparr>) = (Continue, s') \<and>
      ss_inbox s' = [\<lparr>f_id = 7, f_kind = Message, f_data = [1]\<rparr>] \<and>
      ss_sched s' = enqueue wfq_new pong_frame RealTime)"
proof -
  let ?fs = "[\<lparr>f_id = 7, f_kind = Message, f_data = [1]\<rparr>, \<lparr>f_id = 0, f_kind = Ping, f_data = []\<rparr>] :: frame list"
  have cost: "sum_list (map (frame_cost sample_postcard) ?fs) + 7 = 9"
    by (simp add: frame_cost_def encode_frame_def)
  have link: "frame_linked (se_snow sample_env) sample_pair (se_postcard sample_env)
      (sum_list (map (frame_cost (se_postcard sample_env)) ?fs) + 7)
      \<lparr>ns_state = Some (Transport 9)\<rparr> (ss_noise sample_session, ss_acc sample_session)"
    unfolding sample_env_simps cost sample_session_simps by (rule sample_linked) simp
  have fits: "\<forall>f \<in> set ?fs. frame_fits (se_postcard sample_env) (se_max_bytes sample_env) f"
    by (simp add: frame_fits_def)
  from server_inbox_complete [OF link fits] obtain pss peer' where
    "try_map (pack_frame sample_snow sample_postcard) \<lparr>ns_state = Some (Transport 9)\<rparr> ?fs = (Inr pss, peer')"
    and "\<And>ts rest out. length ts = length (concat pss) \<Longrightarrow>
      \<exists>s'. run_server_session sample_env (map (\<lambda>t. WsReady t True) ts)
          (sample_session\<lparr>ss_ws := (map (\<lambda>p. Inr (MBinary p)) (concat pss) @ rest, out)\<rparr>) = (Continue, s') \<and>
        ss_inbox s' = ss_inbox sample_session @ filter app_frame ?fs \<and>
        ss_sched s' = queue_pongs ?fs (ss_sched sample_session)"
    by auto blast
  from this(1) this(2) [of "replicate (length (concat pss)) 5" "[]" "[]"] show ?thesis
    by (auto simp: app_frame_def queue_pongs_def)
qed

text \<open>
  C19. The server's heartbeat is never early: whatever happened before, when the session ends
  because a heartbeat fires, the peer has not been heard for at least the heartbeat interval
  and then the heartbeat timeout.
\<close>

theorem server_heartbeat_never_early:
  assumes "server_reach env ws ns t0 s t" "ss_deadline s \<le> now"
    and "server_handle env (HeartbeatDue now) s = (Break, s')"
  shows "t + se_heartbeat_interval env + se_heartbeat_timeout env \<le> now"
  by (rule server_hb.never_early [OF assms(1) [unfolded server_reach_def] _ _ _ _ assms(3)])
    (simp_all add: server_session_new_def assms(2))

theorem server_heartbeat_never_early_witness:
  "\<exists>s s'. server_reach sample_env ([], []) \<lparr>ns_state = Some (Transport 9)\<rparr> 0 s 0 \<and>
     server_handle sample_env (HeartbeatDue 45) s = (Break, s') \<and> 0 + (30 :: duration) + 10 \<le> 45"
proof -
  have 0: "server_reach sample_env ([], []) \<lparr>ns_state = Some (Transport 9)\<rparr> 0 sample_session 0"
    unfolding sample_session_def server_reach_def by (rule loop_reach.start)
  obtain s1 where s1: "server_handle sample_env (HeartbeatDue 31) sample_session = (Continue, s1)"
    by (cases "send_frame sample_snow sample_postcard script_socket MBinary
        (\<lparr>ns_state = Some (Transport 9)\<rparr>, ([], [])) ping_frame") (simp add: server_on_heartbeat_def)
  then have w: "ss_waiting s1" "ss_deadline s1 = 41"
    by (auto simp: server_on_heartbeat_def split: prod.splits)
  have 1: "server_reach sample_env ([], []) \<lparr>ns_state = Some (Transport 9)\<rparr> 0 s1 0"
    using loop_reach.turn [OF 0 [unfolded server_reach_def] _ s1] by (simp add: server_reach_def)
  have "server_handle sample_env (HeartbeatDue 45) s1 = (Break, s1)"
    using w by (simp add: server_on_heartbeat_def)
  with server_heartbeat_never_early [OF 1 _ this] 1 w show ?thesis by auto
qed

text \<open>
  C27. A peer that stays silent is dropped: from any state of the session, a run in which no
  packet arrives and the heartbeat fires twice has ended by then.
\<close>

theorem server_drops_silent_peer:
  assumes "\<forall>e \<in> set es. \<not> is_heard (server_beat e)" "2 \<le> length (filter (\<lambda>e. is_beat (server_beat e)) es)"
  shows "\<exists>s'. run_server_session env es s = (Break, s') \<and> ss_states s' = ss_states s @ [Disconnected]"
proof -
  from server_hb.drops_silent [OF assms, of env s] obtain s1 where
    "run_turns (server_handle env) es s = (Break, s1)"
    by (cases "run_turns (server_handle env) es s") simp
  then have "run_server_session env es s = (Break, server_finish env s1)" by (simp add: run_server_session_def)
  with run_server_session_states [OF this] show ?thesis by simp
qed

theorem server_drops_silent_peer_witness:
  "\<exists>s'. run_server_session sample_env [HeartbeatDue 31, CmdReady (SendFrame ping_frame Bulk), HeartbeatDue 45]
     sample_session = (Break, s') \<and> ss_states s' = [Disconnected]"
  using server_drops_silent_peer [of "[HeartbeatDue 31, CmdReady (SendFrame ping_frame Bulk), HeartbeatDue 45]"
      sample_env sample_session] by simp

text \<open>
  The handle tells the truth about the session: while the loop runs it publishes nothing
  after the initial \<open>Online\<close>, and it publishes \<open>Disconnected\<close> exactly once, when it ends.
  A handle reading the last published state is alive exactly while the loop runs.
\<close>

theorem session_state_tracks_loop:
  assumes "ss_states s = []" "run_server_session env es s = (r, s')"
  shows "is_alive \<lparr>sh_id = i, sh_cmd_tx = c, sh_state = last (Online # ss_states s')\<rparr> \<longleftrightarrow> r = Continue"
  using run_server_session_states [OF assms(2)] assms(1)
  by (cases r) (simp_all add: is_alive_def handle_state_def)

theorem session_state_tracks_loop_witness:
  "\<not> is_alive \<lparr>sh_id = (0 :: nat), sh_cmd_tx = (),
      sh_state = last (Online # ss_states (snd (run_server_session sample_env [CmdReady CloseSession] sample_session)))\<rparr>"
proof -
  obtain s' where "run_server_session sample_env [CmdReady CloseSession] sample_session = (Break, s')"
    by (simp add: run_server_session_def server_on_cmd_def)
  from session_state_tracks_loop [OF _ this, of "0 :: nat" "()"] this show ?thesis by simp
qed

text \<open>
  Dropping handles closes the session exactly once: over any sequence of clones and drops,
  each atomic, the drop of the last handle sends one \<open>Close\<close>, and no other drop sends
  anything.
\<close>

theorem last_handle_closes:
  assumes "handle_ops mp (1, tx) ops = Some (n, tx')"
  shows "tx' = (if n = 0 then snd (try_send mp tx CloseSession) else tx)"
  using handle_ops_close [OF assms] by simp

theorem last_handle_closes_witness:
  "handle_ops list_sender (1, []) [CloneHandle, DropHandle, CloneHandle, DropHandle, DropHandle] = Some (0, [CloseSession])"
proof -
  obtain n tx' where ops: "handle_ops list_sender (1, []) [CloneHandle, DropHandle, CloneHandle, DropHandle, DropHandle] = Some (n, tx')"
    and n: "n = 0" by simp
  from last_handle_closes [OF ops] n ops show ?thesis by (simp add: list_sender_def)
qed

text \<open>
  The check in \<open>Drop\<close> is not atomic with the release: when two threads drop the last two
  handles and both read the count first, both handles are gone and no \<open>Close\<close> was sent,
  whatever the channel.
\<close>

theorem concurrent_drops_lose_close:
  "drop_steps mp (2, tx) [ReadCount, ReadCount, Release, Release] = (0, tx) \<and>
   drop_steps mp (2, tx) [ReadCount, Release, ReadCount, Release] = (0, snd (try_send mp tx CloseSession))"
  by (simp add: drop_handle_def)

end
