(* ===== verification/Accept.thy ===== *)
theory Accept
  imports Session
begin

text \<open>
  \<open>src/ws/server/mod.rs\<close>: what a server does on a fresh WebSocket before the session loop
  runs.  The version exchange, the responder's side of the Noise handshake, and the handle.
  The channel constructor and the session id are parameters.
\<close>

definition rejection :: "ws_server_config \<Rightarrow> rstr" where
  "rejection cfg = lit ''PROTOCOL_REJECTED '' @ sc_protocol_version cfg"

definition server_version_handshake :: "('w, ws_message) websocket \<Rightarrow> ws_server_config \<Rightarrow> 'w \<Rightarrow>
    (transport_error + unit) \<times> 'w" where
  "server_version_handshake sk cfg ws =
     (case ws_next sk ws of
        (Some (Inr (MText hello_msg)), w) \<Rightarrow>
          let expected_prefix = sc_protocol_name cfg @ lit '' '' in
          if \<not> starts_with hello_msg expected_prefix then
            (Inl ProtocolHandshakeFailed, snd (ws_send sk w (MText (rejection cfg))))
          else
            let client_version = trim (trim_start_matches hello_msg expected_prefix) in
            if client_version \<noteq> sc_protocol_version cfg then
              (Inl (transport_error.VersionMismatch client_version (sc_protocol_version cfg)),
               snd (ws_send sk w (MText (rejection cfg))))
            else
              (case ws_send sk w (MText (lit ''PROTOCOL_ACCEPTED'')) of
                 (Inl e, w1) \<Rightarrow> (Inl (ConnectionFailed e), w1)
               | (Inr _, w1) \<Rightarrow> (Inr (), w1))
      | (_, w) \<Rightarrow> (Inl ProtocolHandshakeFailed, w))"

text \<open>The next binary message, or the given error.\<close>

definition expect_binary :: "('w, ws_message) websocket \<Rightarrow> transport_error \<Rightarrow> 'w \<Rightarrow>
    (transport_error + byte list) \<times> 'w" where
  "expect_binary sk err ws =
     (case ws_next sk ws of (Some (Inr (MBinary d)), w) \<Rightarrow> (Inr d, w) | (_, w) \<Rightarrow> (Inl err, w))"

definition server_noise_handshake :: "('h, 't) snow \<Rightarrow> ('p, 'b, 'h) snow_builder \<Rightarrow>
    ('w, ws_message) websocket \<Rightarrow> ws_server_config \<Rightarrow> 'w \<Rightarrow>
    (transport_error + ('h, 't) noise_session) \<times> 'w" where
  "server_noise_handshake sn sb sk cfg ws =
     (case noise_server sb (sc_noise_private_key cfg) of
        Inl e \<Rightarrow> (Inl (noise_failed e), ws)
      | Inr noise0 \<Rightarrow>
     (case expect_binary sk (NoiseHandshakeFailed (lit ''step 1: no E'')) ws of
        (Inl e, w1) \<Rightarrow> (Inl e, w1)
      | (Inr data1, w1) \<Rightarrow>
     (case read_message sn noise0 data1 65535 of
        (Inl e, _) \<Rightarrow> (Inl (noise_failed e), w1)
      | (Inr _, noise1) \<Rightarrow>
     (case write_message sn noise1 [] 65535 of
        (Inl e, _) \<Rightarrow> (Inl (noise_failed e), w1)
      | (Inr out, noise2) \<Rightarrow>
     (case ws_send sk w1 (MBinary out) of
        (Inl e, w2) \<Rightarrow> (Inl (ConnectionFailed e), w2)
      | (Inr _, w2) \<Rightarrow>
     (case expect_binary sk (NoiseHandshakeFailed (lit ''step 3: no S,SE'')) w2 of
        (Inl e, w3) \<Rightarrow> (Inl e, w3)
      | (Inr data3, w3) \<Rightarrow>
     (case read_message sn noise2 data3 65535 of
        (Inl e, _) \<Rightarrow> (Inl (noise_failed e), w3)
      | (Inr _, noise3) \<Rightarrow>
          if \<not> is_finished noise3 then (Inl (NoiseHandshakeFailed (lit ''handshake not complete'')), w3)
          else (Inr noise3, w3))))))))"

text \<open>
  The result has the handle and, in place of the inbox receiver and the task, what the task
  will own: the Noise session and the socket.
\<close>

definition accept_ws_session :: "('h, 't) snow \<Rightarrow> ('p, 'b, 'h) snow_builder \<Rightarrow>
    ('w, ws_message) websocket \<Rightarrow> (nat \<Rightarrow> 'c) \<Rightarrow> 'i \<Rightarrow> ws_server_config \<Rightarrow> 'w \<Rightarrow>
    (transport_error + ('i, 'c) server_session_handle \<times> ('h, 't) noise_session) \<times> 'w" where
  "accept_ws_session sn sb sk new_channel session_id cfg ws =
     (case server_version_handshake sk cfg ws of
        (Inl e, w1) \<Rightarrow> (Inl e, w1)
      | (Inr _, w1) \<Rightarrow>
          (case server_noise_handshake sn sb sk cfg w1 of
             (Inl e, w2) \<Rightarrow> (Inl e, w2)
           | (Inr noise, w2) \<Rightarrow>
               (Inr (\<lparr>sh_id = session_id, sh_cmd_tx = new_channel (sc_buffer_size cfg), sh_state = Online\<rparr>,
                     noise), w2)))"

text \<open>The arguments the task passes on from the configuration.\<close>

definition config_env :: "('h, 't) snow \<Rightarrow> postcard \<Rightarrow> ('w, ws_message) websocket \<Rightarrow> ws_server_config \<Rightarrow>
    ('h, 't, 'w) session_env" where
  "config_env sn pc sk cfg =
     \<lparr>se_snow = sn, se_postcard = pc, se_socket = sk, se_max_bytes = sc_max_payload_bytes cfg,
      se_heartbeat_interval = sc_heartbeat_interval cfg, se_heartbeat_timeout = sc_heartbeat_timeout cfg\<rparr>"

section \<open>What an accepted connection guarantees\<close>

lemma server_noise_handshake_finished:
  "server_noise_handshake sn sb sk cfg ws = (Inr noise, ws') \<Longrightarrow> is_finished noise"
  by (auto simp: server_noise_handshake_def split: sum.splits prod.splits if_splits)

lemma server_noise_handshake_error:
  "server_noise_handshake sn sb sk cfg ws = (Inl e, ws') \<Longrightarrow>
   (\<exists>s. e = NoiseHandshakeFailed s) \<or> (\<exists>s. e = ConnectionFailed s)"
  by (auto simp: server_noise_handshake_def noise_failed_def expect_binary_def
      split: sum.splits prod.splits if_splits option.splits ws_message.splits)

text \<open>The version test on the hello line alone.\<close>

definition hello_accepted :: "ws_server_config \<Rightarrow> rstr \<Rightarrow> bool" where
  "hello_accepted cfg hello \<longleftrightarrow>
     starts_with hello (sc_protocol_name cfg @ lit '' '') \<and>
     trim (trim_start_matches hello (sc_protocol_name cfg @ lit '' '')) = sc_protocol_version cfg"

lemma server_version_handshake_ok:
  "server_version_handshake sk cfg ws = (Inr (), w') \<longleftrightarrow>
     (\<exists>hello w. ws_next sk ws = (Some (Inr (MText hello)), w) \<and> hello_accepted cfg hello \<and>
        ws_send sk w (MText (lit ''PROTOCOL_ACCEPTED'')) = (Inr (), w'))"
  by (auto simp: server_version_handshake_def hello_accepted_def Let_def
      split: prod.splits option.splits sum.splits ws_message.splits if_splits)

lemma accept_ok_parts:
  assumes "accept_ws_session sn sb sk new_channel i cfg ws = (Inr (h, noise), w')"
  obtains w1 where "server_version_handshake sk cfg ws = (Inr (), w1)"
    "server_noise_handshake sn sb sk cfg w1 = (Inr noise, w')"
    "h = \<lparr>sh_id = i, sh_cmd_tx = new_channel (sc_buffer_size cfg), sh_state = Online\<rparr>"
  using assms by (auto simp: accept_ws_session_def split: prod.splits sum.splits)

section \<open>The version test on validated strings\<close>

lemma protocol_char_not_space: "protocol_char c \<Longrightarrow> c \<noteq> 32"
  by (auto simp: protocol_char_def)

lemma split_at_space:
  assumes "a @ 32 # b = c @ 32 # (d :: rstr)" "32 \<notin> set a" "32 \<notin> set c"
  shows "a = c \<and> b = d"
  using assms
proof (induction a arbitrary: c)
  case Nil
  then show ?case by (cases c) auto
next
  case (Cons x a)
  then show ?case by (cases c) auto
qed

lemma hello_accepted_iff:
  assumes "\<forall>c \<in> set (sc_protocol_name cfg @ sc_protocol_version cfg @ name @ version). protocol_char c"
  shows "hello_accepted cfg (name @ lit '' '' @ version) \<longleftrightarrow>
    name = sc_protocol_name cfg \<and> version = sc_protocol_version cfg"
proof -
  have sp: "lit '' '' = [32]" by (simp add: lit_def)
  have ns: "32 \<notin> set name" "32 \<notin> set (sc_protocol_name cfg)" "32 \<notin> set version"
    using assms protocol_char_not_space by auto
  have start: "starts_with (name @ [32] @ version) (sc_protocol_name cfg @ [32]) \<longleftrightarrow> name = sc_protocol_name cfg"
    using split_at_space [OF _ ns(1,2)] by (auto simp: starts_with_iff)
  have "\<not> starts_with version (name @ [32])" using ns(3) by (auto simp: starts_with_iff)
  then have once: "trim_start_matches (name @ [32] @ version) (name @ [32]) = version"
    using trim_start_matches_once [of "name @ [32]" version] by simp
  have "trim version = version" using assms protocol_char_not_whitespace by (intro trim_none) auto
  with start once show ?thesis by (auto simp: hello_accepted_def sp)
qed

section \<open>Properties\<close>

text \<open>
  C29. Nobody gets a session without both handshakes: if \<open>accept_ws_session\<close> returns a handle,
  the client's first message was a text the version test accepts, the Noise session is in
  transport mode, and the handle reports \<open>Online\<close> with a command channel of the configured
  size.
\<close>

theorem accept_requires_handshakes:
  assumes "accept_ws_session sn sb sk new_channel i cfg ws = (Inr (h, noise), w')"
  shows "(\<exists>hello w. ws_next sk ws = (Some (Inr (MText hello)), w) \<and> hello_accepted cfg hello) \<and>
    is_finished noise \<and> is_alive h \<and> sh_cmd_tx h = new_channel (sc_buffer_size cfg) \<and> sh_id h = i"
  using assms
proof (rule accept_ok_parts)
  fix w1
  assume "server_version_handshake sk cfg ws = (Inr (), w1)" "server_noise_handshake sn sb sk cfg w1 = (Inr noise, w')"
    "h = \<lparr>sh_id = i, sh_cmd_tx = new_channel (sc_buffer_size cfg), sh_state = Online\<rparr>"
  then show ?thesis
    using server_noise_handshake_finished
    by (fastforce simp: server_version_handshake_ok is_alive_def handle_state_def)
qed

definition sample_server_config :: ws_server_config where
  "sample_server_config = \<lparr>sc_protocol_name = lit ''CAM'', sc_protocol_version = lit ''1.0'',
     sc_noise_private_key = replicate 32 3, sc_max_payload_bytes = 4194304,
     sc_heartbeat_interval = from_secs 30, sc_heartbeat_timeout = from_secs 10, sc_buffer_size = 100\<rparr>"

lemma sample_hello_accepted: "hello_accepted sample_server_config (lit ''CAM 1.0'')"
proof -
  have "lit ''CAM 1.0'' = lit ''CAM'' @ lit '' '' @ lit ''1.0''" by (simp add: lit_def)
  moreover have "\<forall>c \<in> set (lit ''CAM'' @ lit ''1.0'' @ lit ''CAM'' @ lit ''1.0''). protocol_char c"
    by (simp add: lit_def protocol_char_def)
  ultimately show ?thesis
    using hello_accepted_iff [of sample_server_config "lit ''CAM''" "lit ''1.0''"]
    by (simp add: sample_server_config_def)
qed

theorem accept_requires_handshakes_witness:
  "\<exists>h noise w'. accept_ws_session sample_snow sample_builder script_socket (\<lambda>n. n) (0 :: nat) sample_server_config
      ([Inr (MText (lit ''CAM 1.0'')), Inr (MBinary [1]), Inr (MBinary [2])], []) = (Inr (h, noise), w') \<and>
    is_finished noise \<and> is_alive h \<and> sh_cmd_tx h = 100"
proof -
  let ?ws = "([Inr (MText (lit ''CAM 1.0'')), Inr (MBinary [1]), Inr (MBinary [2])], [])
      :: (rstr + ws_message) list \<times> ws_message list"
  have "server_version_handshake script_socket sample_server_config ?ws =
      (Inr (), [Inr (MBinary [1]), Inr (MBinary [2])], [MText (lit ''PROTOCOL_ACCEPTED'')])"
    using sample_hello_accepted by (subst server_version_handshake_ok) simp
  then obtain h noise w' where acc: "accept_ws_session sample_snow sample_builder script_socket (\<lambda>n. n) (0 :: nat)
      sample_server_config ?ws = (Inr (h, noise), w')"
    by (simp add: accept_ws_session_def server_noise_handshake_def sample_builder_server expect_binary_def
        read_message_def write_message_def finish_handshake_def sample_snow_def is_finished_def)
  from accept_requires_handshakes [OF this] acc show ?thesis by (auto simp: sample_server_config_def)
qed

text \<open>
  For names and versions that the configurations can hold, the server accepts a client's
  hello exactly when both the protocol names and the versions are equal.
\<close>

theorem hello_accepted_exactly:
  assumes "validate_protocol_string name = Some ()" "validate_protocol_string version = Some ()"
    and "ws_server_config_new sname sversion key = Some cfg"
    and "\<forall>c \<in> set (name @ version @ sname @ sversion). c < 0x110000"
  shows "hello_accepted cfg (name @ lit '' '' @ version) \<longleftrightarrow> name = sname \<and> version = sversion"
proof -
  from ws_server_config_new_valid [OF assms(3)]
  have cfg: "sc_protocol_name cfg = sname" "sc_protocol_version cfg = sversion" "valid_protocol sname sversion"
    by simp_all
  with assms(1,2,4) have "\<forall>c \<in> set (sname @ sversion @ name @ version). protocol_char c"
    using validate_protocol_string_iff [of name] validate_protocol_string_iff [of version]
      validate_protocol_string_iff [of sname] validate_protocol_string_iff [of sversion]
    by (auto simp: valid_protocol_def)
  with hello_accepted_iff [of cfg name version] cfg show ?thesis by simp
qed

theorem hello_accepted_exactly_witness:
  "\<exists>cfg. ws_server_config_new (lit ''CAM'') (lit ''1.0'') [] = Some cfg \<and>
     hello_accepted cfg (lit ''CAM'' @ lit '' '' @ lit ''1.0'') \<and>
     \<not> hello_accepted cfg (lit ''CAM'' @ lit '' '' @ lit ''1.1'')"
proof -
  have valid: "validate_protocol_string (lit ''CAM'') = Some ()" "validate_protocol_string (lit ''1.0'') = Some ()"
    "validate_protocol_string (lit ''1.1'') = Some ()"
    by (simp_all add: validate_protocol_string_iff lit_def protocol_char_def)
  then obtain cfg where cfg: "ws_server_config_new (lit ''CAM'') (lit ''1.0'') [] = Some cfg"
    by (simp add: ws_server_config_new_def)
  have "hello_accepted cfg (lit ''CAM'' @ lit '' '' @ lit ''1.0'') \<longleftrightarrow> lit ''CAM'' = lit ''CAM'' \<and> lit ''1.0'' = lit ''1.0''"
    by (rule hello_accepted_exactly [OF valid(1,2) cfg]) (simp add: lit_def)
  moreover have "hello_accepted cfg (lit ''CAM'' @ lit '' '' @ lit ''1.1'') \<longleftrightarrow> lit ''CAM'' = lit ''CAM'' \<and> lit ''1.1'' = lit ''1.0''"
    by (rule hello_accepted_exactly [OF valid(1,3) cfg]) (simp add: lit_def)
  ultimately show ?thesis using cfg by (simp add: lit_def)
qed

end
