(* ===== verification/Handshake.thy ===== *)
theory Handshake
  imports Accept Connect
begin

text \<open>
  Client and server together: the version exchange of \<open>handle_version_handshake\<close> with that of
  \<open>accept_ws_session\<close>, and the Noise handshake of one with the other's, over a network that
  loses and reorders nothing (\<open>script_socket\<close>).

  What is assumed of snow is \<open>snow_handshake_ok\<close>: the three messages of the XX pattern, each
  read by the other side, end in two transport states that are in step in both directions.
\<close>

definition snow_handshake_ok :: "('h, 't) snow \<Rightarrow> (nat \<Rightarrow> 't \<Rightarrow> 't \<Rightarrow> bool) \<Rightarrow> nat \<Rightarrow> 'h \<Rightarrow> 'h \<Rightarrow> bool" where
  "snow_handshake_ok sn pair n hi hr \<longleftrightarrow>
     (\<exists>m1 m2 m3 p1 p2 p3 hi1 hi2 hi3 hr1 hr2 hr3 ti tr.
        hs_write sn hi [] 65535 = (Inr m1, hi1) \<and> \<not> hs_finished sn hi1 \<and>
        hs_read sn hr m1 65535 = (Inr p1, hr1) \<and> \<not> hs_finished sn hr1 \<and>
        hs_write sn hr1 [] 65535 = (Inr m2, hr2) \<and> \<not> hs_finished sn hr2 \<and>
        hs_read sn hi1 m2 65535 = (Inr p2, hi2) \<and> \<not> hs_finished sn hi2 \<and>
        hs_write sn hi2 [] 65535 = (Inr m3, hi3) \<and> hs_finished sn hi3 \<and> into_transport_mode sn hi3 = Inr ti \<and>
        hs_read sn hr2 m3 65535 = (Inr p3, hr3) \<and> hs_finished sn hr3 \<and> into_transport_mode sn hr3 = Inr tr \<and>
        pair n ti tr \<and> pair n tr ti)"

lemma noise_handshakes_states:
  fixes sn :: "('h, 't) snow"
  assumes "noise_client cb (cc_noise_server_key ccfg) = Inr (\<lparr>ns_state = Some (Handshake hi)\<rparr> :: ('h, 't) noise_session)"
    and "noise_server sb (sc_noise_private_key scfg) = Inr (\<lparr>ns_state = Some (Handshake hr)\<rparr> :: ('h, 't) noise_session)"
    and "snow_handshake_ok sn pair n hi hr"
  obtains m1 m2 m3 ti tr where
    "\<And>rest out. client_noise_handshake sn cb script_socket ccfg (Inr (Binary m2) # rest, out) =
       (Inr \<lparr>ns_state = Some (Transport ti)\<rparr>, (rest, out @ [Binary m1, Binary m3]))"
    "\<And>rest out. server_noise_handshake sn sb script_socket scfg (Inr (MBinary m1) # Inr (MBinary m3) # rest, out) =
       (Inr \<lparr>ns_state = Some (Transport tr)\<rparr>, (rest, out @ [MBinary m2]))"
    "pair n ti tr" "pair n tr ti"
proof -
  from assms(3) obtain m1 m2 m3 p1 p2 p3 hi1 hi2 hi3 hr1 hr2 hr3 ti tr where
    h: "hs_write sn hi [] 65535 = (Inr m1, hi1)" "\<not> hs_finished sn hi1"
      "hs_read sn hr m1 65535 = (Inr p1, hr1)" "\<not> hs_finished sn hr1"
      "hs_write sn hr1 [] 65535 = (Inr m2, hr2)" "\<not> hs_finished sn hr2"
      "hs_read sn hi1 m2 65535 = (Inr p2, hi2)" "\<not> hs_finished sn hi2"
      "hs_write sn hi2 [] 65535 = (Inr m3, hi3)" "hs_finished sn hi3" "into_transport_mode sn hi3 = Inr ti"
      "hs_read sn hr2 m3 65535 = (Inr p3, hr3)" "hs_finished sn hr3" "into_transport_mode sn hr3 = Inr tr"
      and pair: "pair n ti tr" "pair n tr ti"
    unfolding snow_handshake_ok_def by blast
  note steps = read_message_def write_message_def finish_handshake_def is_finished_def
  show thesis
  proof (rule that [of m2 ti m1 m3 tr])
    fix rest out
    show "client_noise_handshake sn cb script_socket ccfg (Inr (Binary m2) # rest, out) =
        (Inr \<lparr>ns_state = Some (Transport ti)\<rparr>, (rest, out @ [Binary m1, Binary m3]))"
      by (simp add: client_noise_handshake_def assms(1) h steps)
  next
    fix rest out
    show "server_noise_handshake sn sb script_socket scfg (Inr (MBinary m1) # Inr (MBinary m3) # rest, out) =
        (Inr \<lparr>ns_state = Some (Transport tr)\<rparr>, (rest, out @ [MBinary m2]))"
      by (simp add: server_noise_handshake_def assms(2) h steps expect_binary_def)
  qed (fact pair)+
qed

lemma noise_handshakes_complete:
  fixes sn :: "('h, 't) snow"
  assumes "noise_client cb (cc_noise_server_key ccfg) = Inr (\<lparr>ns_state = Some (Handshake hi)\<rparr> :: ('h, 't) noise_session)"
    and "noise_server sb (sc_noise_private_key scfg) = Inr (\<lparr>ns_state = Some (Handshake hr)\<rparr> :: ('h, 't) noise_session)"
    and "snow_handshake_ok sn pair n hi hr" "snow_transport_ok sn pair"
  obtains m1 m2 m3 nc ns where
    "\<And>rest out. client_noise_handshake sn cb script_socket ccfg (Inr (Binary m2) # rest, out) =
       (Inr nc, (rest, out @ [Binary m1, Binary m3]))"
    "\<And>rest out. server_noise_handshake sn sb script_socket scfg (Inr (MBinary m1) # Inr (MBinary m3) # rest, out) =
       (Inr ns, (rest, out @ [MBinary m2]))"
    "noise_paired sn pair n nc ns" "noise_paired sn pair n ns nc"
proof -
  from noise_handshakes_states [OF assms(1-3)] obtain m1 m2 m3 ti tr where
    *: "\<And>rest out. client_noise_handshake sn cb script_socket ccfg (Inr (Binary m2) # rest, out) =
       (Inr \<lparr>ns_state = Some (Transport ti)\<rparr>, (rest, out @ [Binary m1, Binary m3]))"
    "\<And>rest out. server_noise_handshake sn sb script_socket scfg (Inr (MBinary m1) # Inr (MBinary m3) # rest, out) =
       (Inr \<lparr>ns_state = Some (Transport tr)\<rparr>, (rest, out @ [MBinary m2]))"
    "pair n ti tr" "pair n tr ti" by metis
  show thesis by (rule that [OF *(1,2)]) (use *(3,4) assms(4) in \<open>simp_all add: noise_paired_def\<close>)
qed

section \<open>Verdicts\<close>

lemma contains_self [simp]: "contains s s"
  by (metis append_Nil append_Nil2 contains_iff)

lemma accepted_not_in_rejected: "\<not> contains (lit ''PROTOCOL_REJECTED'') (lit ''PROTOCOL_ACCEPTED'')"
proof
  assume "contains (lit ''PROTOCOL_REJECTED'') (lit ''PROTOCOL_ACCEPTED'')"
  then obtain a b where ab: "lit ''PROTOCOL_REJECTED'' = a @ lit ''PROTOCOL_ACCEPTED'' @ b"
    by (auto simp: contains_iff)
  from arg_cong [OF this, of length] have "a = []" "b = []" by simp_all
  with ab show False by (simp add: lit_def)
qed

text \<open>A word without a blank occurs in a line only within the parts the blanks separate.\<close>

lemma contains_word:
  assumes "32 \<notin> set p" "contains (x @ 32 # y) p"
  shows "contains x p \<or> contains y p"
proof -
  from assms(2) obtain a b where eq: "x @ 32 # y = a @ p @ b" by (auto simp: contains_iff)
  show ?thesis
  proof (cases "length (a @ p) \<le> length x")
    case True
    have "take (length (a @ p)) (x @ 32 # y) = a @ p" by (simp add: eq)
    with True have "take (length (a @ p)) x = a @ p" by simp
    then have "x = a @ p @ drop (length (a @ p)) x" by (metis append_assoc append_take_drop_id)
    then show ?thesis by (auto simp: contains_iff)
  next
    case False
    then have long: "length x < length (a @ p)" by simp
    have "length x < length a"
    proof (rule ccontr)
      assume "\<not> length x < length a"
      with long have less: "length x - length a < length p" by simp
      with \<open>\<not> length x < length a\<close> have "p ! (length x - length a) = (a @ p @ b) ! length x"
        by (simp add: nth_append)
      also have "\<dots> = 32" by (metis eq nth_append_length)
      finally show False using assms(1) nth_mem [OF less] by simp
    qed
    then have "y = drop (Suc (length x)) (a @ p @ b)" by (simp flip: eq)
    also have "\<dots> = drop (Suc (length x)) a @ p @ b" using \<open>length x < length a\<close> by simp
    finally show ?thesis by (auto simp: contains_iff)
  qed
qed

lemma no_blank_accepted: "32 \<notin> set (lit ''PROTOCOL_ACCEPTED'')"
  by (simp add: lit_def)

lemma rejection_verdict:
  assumes "\<not> contains (sc_protocol_version scfg) (lit ''PROTOCOL_ACCEPTED'')"
    and "trim (sc_protocol_version scfg) = sc_protocol_version scfg"
  shows "fst (client_version_handshake script_socket ccfg (Inr (Text (rejection scfg)) # rest, out)) =
    VersionRejected (VersionMismatch (cc_protocol_version ccfg) (sc_protocol_version scfg))"
proof -
  have line: "rejection scfg = lit ''PROTOCOL_REJECTED'' @ 32 # sc_protocol_version scfg"
    by (simp add: rejection_def lit_def)
  have no: "\<not> contains (rejection scfg) (lit ''PROTOCOL_ACCEPTED'')"
    using contains_word [OF no_blank_accepted] accepted_not_in_rejected assms(1) unfolding line by blast
  have "contains (rejection scfg) (lit ''PROTOCOL_REJECTED'')"
    unfolding line contains_iff by (metis append_Nil)
  moreover have "rejected_state ccfg (rejection scfg) =
      VersionMismatch (cc_protocol_version ccfg) (sc_protocol_version scfg)"
    by (simp add: rejected_state_def rejection_def assms(2))
  ultimately show ?thesis using no by (simp add: client_version_handshake_def)
qed

lemma server_verdict:
  "server_version_handshake script_socket scfg (Inr (MText hello) # rest, out) =
     (if hello_accepted scfg hello then (Inr (), (rest, out @ [MText (lit ''PROTOCOL_ACCEPTED'')]))
      else (Inl (if starts_with hello (sc_protocol_name scfg @ lit '' '')
                 then transport_error.VersionMismatch (trim (trim_start_matches hello (sc_protocol_name scfg @ lit '' '')))
                        (sc_protocol_version scfg)
                 else ProtocolHandshakeFailed),
            (rest, out @ [MText (rejection scfg)])))"
  by (simp add: server_version_handshake_def hello_accepted_def Let_def)

section \<open>Properties\<close>

text \<open>
  C23. Client and server always reach the same verdict on the protocol: the server answers the
  client's hello with one line; if names and versions are equal both go on, otherwise the
  server fails and the client, reading that line, reports \<open>VersionMismatch\<close> with both
  versions.  The server's version must not itself contain the word the client looks for.
\<close>

theorem version_verdicts_agree:
  assumes "ws_client_config_new name version = Some ccfg" "ws_server_config_new sname sversion key = Some scfg"
    and "\<forall>c \<in> set (name @ version @ sname @ sversion). c < 0x110000"
    and "\<not> contains sversion (lit ''PROTOCOL_ACCEPTED'')"
  shows "\<exists>r line. server_version_handshake script_socket scfg ([Inr (MText (client_hello ccfg))], []) = (r, ([], [MText line])) \<and>
    (is_ok r \<longleftrightarrow> name = sname \<and> version = sversion) \<and>
    fst (client_version_handshake script_socket ccfg ([Inr (Text line)], [])) =
      (if name = sname \<and> version = sversion then VersionOk else VersionRejected (VersionMismatch version sversion))"
proof -
  from ws_client_config_new_valid [OF assms(1)] have c: "cc_protocol_name ccfg = name" "cc_protocol_version ccfg = version"
    "validate_protocol_string name = Some ()" "validate_protocol_string version = Some ()"
    by (simp_all add: valid_protocol_def)
  from ws_server_config_new_valid [OF assms(2)] have s: "sc_protocol_name scfg = sname" "sc_protocol_version scfg = sversion"
    "validate_protocol_string sname = Some ()" "validate_protocol_string sversion = Some ()"
    by (simp_all add: valid_protocol_def)
  from s assms(3) c have chars: "\<forall>c \<in> set (sname @ sversion @ name @ version). protocol_char c"
    using validate_protocol_string_iff [of name] validate_protocol_string_iff [of version]
      validate_protocol_string_iff [of sname] validate_protocol_string_iff [of sversion] by auto
  then have iff: "hello_accepted scfg (client_hello ccfg) \<longleftrightarrow> name = sname \<and> version = sversion"
    using hello_accepted_iff [of scfg name version] s c by (simp add: client_hello_def)
  have "trim sversion = sversion" using chars protocol_char_not_whitespace by (intro trim_none) auto
  then have rej: "fst (client_version_handshake script_socket ccfg ([Inr (Text (rejection scfg))], [])) =
      VersionRejected (VersionMismatch version sversion)"
    using rejection_verdict [of scfg ccfg "[]" "[]"] assms(4) s c by simp
  have acc: "fst (client_version_handshake script_socket ccfg ([Inr (Text (lit ''PROTOCOL_ACCEPTED''))], [])) = VersionOk"
    by (simp add: client_version_handshake_def)
  show ?thesis
  proof (cases "name = sname \<and> version = sversion")
    case True
    with iff acc show ?thesis by (simp add: server_verdict)
  next
    case False
    with iff rej show ?thesis by (auto simp: server_verdict)
  qed
qed

theorem version_verdicts_agree_witness:
  "\<exists>ccfg scfg r line. ws_client_config_new (lit ''A'') (lit ''1'') = Some ccfg \<and>
     server_version_handshake script_socket scfg ([Inr (MText (client_hello ccfg))], []) = (r, ([], [MText line])) \<and>
     \<not> is_ok r \<and>
     fst (client_version_handshake script_socket ccfg ([Inr (Text line)], [])) =
       VersionRejected (VersionMismatch (lit ''1'') (lit ''2''))"
proof -
  have valid: "validate_protocol_string (lit ''A'') = Some ()" "validate_protocol_string (lit ''1'') = Some ()"
    "validate_protocol_string (lit ''2'') = Some ()"
    by (simp_all add: validate_protocol_string_iff lit_def protocol_char_def)
  obtain ccfg scfg where cfg: "ws_client_config_new (lit ''A'') (lit ''1'') = Some ccfg"
    "ws_server_config_new (lit ''A'') (lit ''2'') [] = Some scfg"
    by (simp add: ws_client_config_new_def ws_server_config_new_def valid)
  have "\<not> contains (lit ''2'') (lit ''PROTOCOL_ACCEPTED'')"
    by (simp add: contains.simps starts_with_def lit_def)
  from version_verdicts_agree [OF cfg _ this] cfg(1) show ?thesis by (fastforce simp: lit_def)
qed

text \<open>
  Without that condition they disagree: when the server's version contains
  \<open>PROTOCOL_ACCEPTED\<close>, the client takes every rejection for an acceptance.
\<close>

theorem rejection_read_as_acceptance:
  assumes "contains (sc_protocol_version scfg) (lit ''PROTOCOL_ACCEPTED'')"
  shows "fst (client_version_handshake script_socket ccfg (Inr (Text (rejection scfg)) # rest, out)) = VersionOk"
proof -
  from assms obtain a b where "sc_protocol_version scfg = a @ lit ''PROTOCOL_ACCEPTED'' @ b" by (auto simp: contains_iff)
  then have "contains (rejection scfg) (lit ''PROTOCOL_ACCEPTED'')"
    unfolding rejection_def contains_iff by (metis append_assoc)
  then show ?thesis by (simp add: client_version_handshake_def)
qed

theorem rejection_read_as_acceptance_witness:
  "fst (client_version_handshake script_socket sample_auth_config
     ([Inr (Text (rejection (sample_server_config\<lparr>sc_protocol_version := lit ''PROTOCOL_ACCEPTED''\<rparr>)))], [])) = VersionOk"
  by (rule rejection_read_as_acceptance) simp

text \<open>
  The handshakes fit together: with equal names and versions and keys snow accepts, the
  client's messages make the server accept, the server's messages make the client succeed,
  each is a run of the other's messages, and the two Noise sessions are in step in both
  directions.
\<close>

theorem handshakes_complete:
  fixes sn :: "('h, 't) snow"
  assumes "ws_client_config_new name version = Some ccfg0" "ccfg = ccfg0\<lparr>cc_noise_server_key := pin\<rparr>"
    and "ws_server_config_new name version key = Some scfg" "\<forall>c \<in> set (name @ version). c < 0x110000"
    and "noise_client cb pin = Inr (\<lparr>ns_state = Some (Handshake hi)\<rparr> :: ('h, 't) noise_session)"
    and "noise_server sb key = Inr (\<lparr>ns_state = Some (Handshake hr)\<rparr> :: ('h, 't) noise_session)"
    and "snow_handshake_ok sn pair n hi hr" "snow_transport_ok sn pair"
  shows "\<exists>c2s s2c w nc ns h.
    client_version_handshake script_socket ccfg (map Inr s2c, []) = (VersionOk, w) \<and>
    client_noise_handshake sn cb script_socket ccfg w = (Inr nc, ([], c2s)) \<and>
    accept_ws_session sn sb script_socket new_channel i scfg (map Inr (map native_message c2s), []) =
      (Inr (h, ns), ([], map native_message s2c)) \<and>
    noise_paired sn pair n nc ns \<and> noise_paired sn pair n ns nc \<and> is_alive h"
proof -
  from ws_client_config_new_valid [OF assms(1)] assms(2) have c: "cc_protocol_name ccfg = name"
    "cc_protocol_version ccfg = version" "valid_protocol name version" "cc_noise_server_key ccfg = pin" by simp_all
  from ws_server_config_new_valid [OF assms(3)] have s: "sc_protocol_name scfg = name" "sc_protocol_version scfg = version"
    "sc_noise_private_key scfg = key" by simp_all
  from c(3) assms(4) have "\<forall>c \<in> set (name @ version @ name @ version). protocol_char c"
    using validate_protocol_string_iff [of name] validate_protocol_string_iff [of version]
    by (auto simp: valid_protocol_def)
  then have acc: "hello_accepted scfg (client_hello ccfg)"
    using hello_accepted_iff [of scfg name version] s c by (simp add: client_hello_def)
  from noise_handshakes_complete [of cb ccfg hi sb scfg hr sn pair n] assms(5-8) c(4) s(3) obtain m1 m2 m3 nc ns where
    m: "\<And>rest out. client_noise_handshake sn cb script_socket ccfg (Inr (Binary m2) # rest, out) =
         (Inr nc, (rest, out @ [Binary m1, Binary m3]))"
      "\<And>rest out. server_noise_handshake sn sb script_socket scfg (Inr (MBinary m1) # Inr (MBinary m3) # rest, out) =
         (Inr ns, (rest, out @ [MBinary m2]))"
      "noise_paired sn pair n nc ns" "noise_paired sn pair n ns nc" by metis
  let ?c2s = "[Text (client_hello ccfg), Binary m1, Binary m3]"
  let ?s2c = "[Text (lit ''PROTOCOL_ACCEPTED''), Binary m2]"
  have cv: "client_version_handshake script_socket ccfg (map Inr ?s2c, []) =
      (VersionOk, ([Inr (Binary m2)], [Text (client_hello ccfg)]))"
    by (simp add: client_version_handshake_def)
  moreover have "client_noise_handshake sn cb script_socket ccfg ([Inr (Binary m2)], [Text (client_hello ccfg)]) =
      (Inr nc, ([], ?c2s))" by (simp add: m(1))
  moreover have "accept_ws_session sn sb script_socket new_channel i scfg (map Inr (map native_message ?c2s), []) =
      (Inr (\<lparr>sh_id = i, sh_cmd_tx = new_channel (sc_buffer_size scfg), sh_state = Online\<rparr>, ns), ([], map native_message ?s2c))"
    using acc by (simp add: accept_ws_session_def server_verdict m(2))
  moreover have "is_alive \<lparr>sh_id = i, sh_cmd_tx = new_channel (sc_buffer_size scfg), sh_state = Online\<rparr>"
    by (simp add: is_alive_def handle_state_def)
  ultimately show ?thesis using m(3,4) by blast
qed

lemma sample_snow_handshake: "snow_handshake_ok sample_snow sample_pair 1000 0 0"
  by (simp add: snow_handshake_ok_def sample_snow_def sample_pair_def)

theorem handshakes_complete_witness:
  "\<exists>ccfg scfg c2s s2c w nc ns h.
    ws_client_config_new (lit ''A'') (lit ''1'') = Some ccfg \<and> ws_server_config_new (lit ''A'') (lit ''1'') [7] = Some scfg \<and>
    client_version_handshake script_socket ccfg (map Inr s2c, []) = (VersionOk, w) \<and>
    client_noise_handshake sample_snow sample_builder script_socket ccfg w = (Inr nc, ([], c2s)) \<and>
    accept_ws_session sample_snow sample_builder script_socket (\<lambda>n. n) (0 :: nat) scfg (map Inr (map native_message c2s), []) =
      (Inr (h, ns), ([], map native_message s2c)) \<and>
    noise_paired sample_snow sample_pair 1000 nc ns"
proof -
  have valid: "validate_protocol_string (lit ''A'') = Some ()" "validate_protocol_string (lit ''1'') = Some ()"
    by (simp_all add: validate_protocol_string_iff lit_def protocol_char_def)
  obtain ccfg scfg where cfg: "ws_client_config_new (lit ''A'') (lit ''1'') = Some ccfg"
    "ws_server_config_new (lit ''A'') (lit ''1'') [7] = Some scfg" and pin: "ccfg = ccfg\<lparr>cc_noise_server_key := None\<rparr>"
    by (simp add: ws_client_config_new_def ws_server_config_new_def valid)
  have client: "noise_client sample_builder None = Inr (\<lparr>ns_state = Some (Handshake 0)\<rparr> :: (nat, nat) noise_session)"
    by (simp add: noise_client_def sample_builder_def)
  have chars: "\<forall>c \<in> set (lit ''A'' @ lit ''1''). c < 0x110000" by (simp add: lit_def)
  from handshakes_complete [OF cfg(1) pin cfg(2) chars client sample_builder_server sample_snow_handshake sample_snow_ok,
      of "\<lambda>n. n" "0 :: nat"] cfg
  show ?thesis by blast
qed

end
