(* ===== verification/Exchange.thy ===== *)
theory Exchange
  imports MsgLoop Session
begin

text \<open>
  Traffic over an open connection: the client's message loop and the server's session loop run
  against each other over scripted sockets, where each side reads what the other one wrote.
\<close>

section \<open>Carrying a frame\<close>

text \<open>The network between scripted sockets: what one side sent is what the other will read.\<close>

fun to_server :: "client_message \<Rightarrow> rstr + ws_message" where
  "to_server (Text t) = Inr (MText t)"
| "to_server (Binary d) = Inr (MBinary d)"

fun to_client :: "ws_message \<Rightarrow> (rstr + client_message) list" where
  "to_client (MText t) = [Inr (Text t)]"
| "to_client (MBinary d) = [Inr (Binary d)]"
| "to_client _ = []"

text \<open>
  What one side has written is appended to what the other side will read.
\<close>

definition transmit_up ::
  "('h, 't, (rstr + client_message) list \<times> client_message list, 'c, 'e) msg_loop \<times>
     ('h, 't, (rstr + ws_message) list \<times> ws_message list) server_session \<Rightarrow>
   ('h, 't, (rstr + client_message) list \<times> client_message list, 'c, 'e) msg_loop \<times>
     ('h, 't, (rstr + ws_message) list \<times> ws_message list) server_session" where
  "transmit_up cs =
     (case cs of (c, s) \<Rightarrow>
      (c\<lparr>ml_ws := (fst (ml_ws c), [])\<rparr>, s\<lparr>ss_ws := (fst (ss_ws s) @ map to_server (snd (ml_ws c)), snd (ss_ws s))\<rparr>))"

definition transmit_down ::
  "('h, 't, (rstr + client_message) list \<times> client_message list, 'c, 'e) msg_loop \<times>
     ('h, 't, (rstr + ws_message) list \<times> ws_message list) server_session \<Rightarrow>
   ('h, 't, (rstr + client_message) list \<times> client_message list, 'c, 'e) msg_loop \<times>
     ('h, 't, (rstr + ws_message) list \<times> ws_message list) server_session" where
  "transmit_down cs =
     (case cs of (c, s) \<Rightarrow>
      (c\<lparr>ml_ws := (fst (ml_ws c) @ concat (map to_client (snd (ss_ws s))), snd (ml_ws c))\<rparr>,
       s\<lparr>ss_ws := (fst (ss_ws s), [])\<rparr>))"

text \<open>A loop reads everything that has arrived; \<open>None\<close> is that it ended meanwhile.\<close>

definition server_reads ::
  "('h, 't, (rstr + ws_message) list \<times> ws_message list) session_env \<Rightarrow> nat \<Rightarrow>
   ('h, 't, (rstr + client_message) list \<times> client_message list, 'c, 'e) msg_loop \<times>
     ('h, 't, (rstr + ws_message) list \<times> ws_message list) server_session \<Rightarrow>
   (('h, 't, (rstr + client_message) list \<times> client_message list, 'c, 'e) msg_loop \<times>
     ('h, 't, (rstr + ws_message) list \<times> ws_message list) server_session) option" where
  "server_reads se now cs =
     (case cs of (c, s) \<Rightarrow>
      case run_turns (server_handle se) (map (\<lambda>_. WsReady now True) (fst (ss_ws s))) s of
        (Continue, s1) \<Rightarrow> Some (c, s1)
      | (Break, _) \<Rightarrow> None)"

definition client_reads ::
  "('h, 't, (rstr + client_message) list \<times> client_message list, 'c) client_env \<Rightarrow> nat \<Rightarrow>
   ('h, 't, (rstr + client_message) list \<times> client_message list, 'c, 'e) msg_loop \<times>
     ('h, 't, (rstr + ws_message) list \<times> ws_message list) server_session \<Rightarrow>
   (('h, 't, (rstr + client_message) list \<times> client_message list, 'c, 'e) msg_loop \<times>
     ('h, 't, (rstr + ws_message) list \<times> ws_message list) server_session) option" where
  "client_reads ce now cs =
     (case cs of (c, s) \<Rightarrow>
      case run_turns (ml_handle ce) (map (\<lambda>_. MlWs now) (fst (ml_ws c))) c of
        (Continue, c1) \<Rightarrow> Some (c1, s)
      | (Break, _) \<Rightarrow> None)"

text \<open>
  There: the client's loop takes a \<open>Send\<close> command and sends, the server's loop reads what
  arrives.  Back: the server's loop takes a \<open>SendFrame\<close> command and sends, the client's reads.
  If a turn of either loop is its last, the result is \<open>None\<close>.
\<close>

definition carry_up ::
  "('h, 't, (rstr + client_message) list \<times> client_message list, 'c) client_env \<Rightarrow>
   ('h, 't, (rstr + ws_message) list \<times> ws_message list) session_env \<Rightarrow> message_priority \<Rightarrow> nat \<Rightarrow> frame \<Rightarrow>
   ('h, 't, (rstr + client_message) list \<times> client_message list, 'c, 'e) msg_loop \<times>
     ('h, 't, (rstr + ws_message) list \<times> ws_message list) server_session \<Rightarrow>
   (('h, 't, (rstr + client_message) list \<times> client_message list, 'c, 'e) msg_loop \<times>
     ('h, 't, (rstr + ws_message) list \<times> ws_message list) server_session) option" where
  "carry_up ce se p now f cs =
     (case cs of (c, s) \<Rightarrow>
      case ml_on_cmd ce (Send f p) [] c of
        (Continue, c1) \<Rightarrow> server_reads se now (transmit_up (c1, s))
      | (Break, _) \<Rightarrow> None)"

definition carry_down ::
  "('h, 't, (rstr + client_message) list \<times> client_message list, 'c) client_env \<Rightarrow>
   ('h, 't, (rstr + ws_message) list \<times> ws_message list) session_env \<Rightarrow> message_priority \<Rightarrow> nat \<Rightarrow> frame \<Rightarrow>
   ('h, 't, (rstr + client_message) list \<times> client_message list, 'c, 'e) msg_loop \<times>
     ('h, 't, (rstr + ws_message) list \<times> ws_message list) server_session \<Rightarrow>
   (('h, 't, (rstr + client_message) list \<times> client_message list, 'c, 'e) msg_loop \<times>
     ('h, 't, (rstr + ws_message) list \<times> ws_message list) server_session) option" where
  "carry_down ce se q now g cs =
     (case cs of (c, s) \<Rightarrow>
      case server_on_cmd se (SendFrame g q) s of
        (Continue, s1) \<Rightarrow> client_reads ce now (transmit_down (c, s1))
      | (Break, _) \<Rightarrow> None)"

lemma to_server_Binary [simp]: "map to_server (map Binary ps) = map (\<lambda>p. Inr (MBinary p)) ps"
  by (induction ps) simp_all

lemma to_client_MBinary [simp]: "concat (map to_client (map MBinary ps)) = map (\<lambda>p. Inr (Binary p)) ps"
  by (induction ps) simp_all

text \<open>
  What the two applications do: a request and its reply (\<open>request\<close>, \<open>respond\<close> with the id of the
  frame last taken from the inbox), an event pushed by the server (\<open>push_event\<close>), and one sent by
  the client (\<open>send_event\<close>).  Between taking the command from the caller and the loop there is
  only the command channel.  A talk gives what the futures of its requests return when they
  are polled, or \<open>None\<close> when one of the two loops has ended.
\<close>

datatype talk =
    Ask message_priority message_priority "byte list" "byte list"
  | Push message_priority "byte list"
  | Notify message_priority "byte list"

definition event_frame :: "byte list \<Rightarrow> frame" where
  "event_frame data = \<lparr>f_id = 0, f_kind = Event, f_data = data\<rparr>"

fun talk_step ::
  "('h, 't, (rstr + client_message) list \<times> client_message list, 'c) client_env \<Rightarrow>
   ('h, 't, (rstr + ws_message) list \<times> ws_message list) session_env \<Rightarrow> nat \<Rightarrow> talk \<Rightarrow>
   ('h, 't, (rstr + client_message) list \<times> client_message list, 'c, 'e) msg_loop \<times>
     ('h, 't, (rstr + ws_message) list \<times> ws_message list) server_session \<Rightarrow>
   ((transport_error + byte list) option list \<times>
     ('h, 't, (rstr + client_message) list \<times> client_message list, 'c, 'e) msg_loop \<times>
     ('h, 't, (rstr + ws_message) list \<times> ws_message list) server_session) option" where
  "talk_step ce se now (Ask p q data reply) (c, s) =
     (case request_start data (ml_client c) of ((k, f), cl) \<Rightarrow>
      case carry_up ce se p now f (c\<lparr>ml_client := cl\<rparr>, s) of
        None \<Rightarrow> None
      | Some (c1, s1) \<Rightarrow>
          (case carry_down ce se q now \<lparr>f_id = f_id (last (ss_inbox s1)), f_kind = Message, f_data = reply\<rparr> (c1, s1) of
             None \<Rightarrow> None
           | Some (c2, s2) \<Rightarrow> Some ([fst (request_poll k False (ml_client c2))], c2, s2)))"
| "talk_step ce se now (Push q data) cs = map_option (Pair []) (carry_down ce se q now (event_frame data) cs)"
| "talk_step ce se now (Notify p data) cs = map_option (Pair []) (carry_up ce se p now (event_frame data) cs)"

fun conversation ::
  "('h, 't, (rstr + client_message) list \<times> client_message list, 'c) client_env \<Rightarrow>
   ('h, 't, (rstr + ws_message) list \<times> ws_message list) session_env \<Rightarrow> nat \<Rightarrow> talk list \<Rightarrow>
   ('h, 't, (rstr + client_message) list \<times> client_message list, 'c, 'e) msg_loop \<times>
     ('h, 't, (rstr + ws_message) list \<times> ws_message list) server_session \<Rightarrow>
   ((transport_error + byte list) option list \<times>
     ('h, 't, (rstr + client_message) list \<times> client_message list, 'c, 'e) msg_loop \<times>
     ('h, 't, (rstr + ws_message) list \<times> ws_message list) server_session) option" where
  "conversation ce se now [] cs = Some ([], cs)"
| "conversation ce se now (x # xs) cs =
     (case talk_step ce se now x cs of
        None \<Rightarrow> None
      | Some (rs, cs1) \<Rightarrow>
          (case conversation ce se now xs cs1 of
             None \<Rightarrow> None
           | Some (rs', cs2) \<Rightarrow> Some (rs @ rs', cs2)))"

text \<open>
  What a conversation should do: the frames it carries there and back, from request id \<open>i\<close> on,
  the replies, and the calls of the event handler.
\<close>

fun next_id :: "u32 \<Rightarrow> talk \<Rightarrow> u32" where
  "next_id i (Ask p q data reply) = i + 1"
| "next_id i _ = i"

fun up :: "u32 \<Rightarrow> talk \<Rightarrow> frame list" where
  "up i (Ask p q data reply) = [\<lparr>f_id = i, f_kind = Message, f_data = data\<rparr>]"
| "up i (Push q data) = []"
| "up i (Notify p data) = [event_frame data]"

fun down :: "u32 \<Rightarrow> talk \<Rightarrow> frame list" where
  "down i (Ask p q data reply) = [\<lparr>f_id = i, f_kind = Message, f_data = reply\<rparr>]"
| "down i (Push q data) = [event_frame data]"
| "down i (Notify p data) = []"

fun asked :: "u32 \<Rightarrow> talk list \<Rightarrow> frame list" where
  "asked i [] = []"
| "asked i (x # xs) = up i x @ asked (next_id i x) xs"

fun answered :: "u32 \<Rightarrow> talk list \<Rightarrow> frame list" where
  "answered i [] = []"
| "answered i (x # xs) = down i x @ answered (next_id i x) xs"

fun replies :: "talk list \<Rightarrow> byte list list" where
  "replies [] = []"
| "replies (Ask p q data reply # xs) = reply # replies xs"
| "replies (_ # xs) = replies xs"

fun pushed :: "talk list \<Rightarrow> byte list list" where
  "pushed [] = []"
| "pushed (Push q data # xs) = data # pushed xs"
| "pushed (_ # xs) = pushed xs"

text \<open>Without a handler an event is dropped.\<close>

definition handled :: "'e option \<Rightarrow> byte list list \<Rightarrow> ('e \<times> byte list) list" where
  "handled h ds = (case h of None \<Rightarrow> [] | Some e \<Rightarrow> map (Pair e) ds)"

lemma handled_simps [simp]: "handled h [] = []" "handled h (ds @ es) = handled h ds @ handled h es"
  by (cases h; simp add: handled_def)+

text \<open>
  Both ends of a connection between two talks: nothing queued on either side, everything
  written has been read, the pending map as it should be, the Noise sessions good for \<open>n\<close>
  packets there and \<open>m\<close> back.
\<close>

definition in_step ::
  "('h, 't, (rstr + client_message) list \<times> client_message list, 'c) client_env \<Rightarrow> (nat \<Rightarrow> nat \<Rightarrow> 't \<Rightarrow> 't \<Rightarrow> bool) \<Rightarrow> nat \<Rightarrow> nat \<Rightarrow>
   ('h, 't, (rstr + client_message) list \<times> client_message list, 'c, 'e) msg_loop \<Rightarrow>
   ('h, 't, (rstr + ws_message) list \<times> ws_message list) server_session \<Rightarrow> bool" where
  "in_step ce dup n m c s \<longleftrightarrow>
     ml_ws c = ([], []) \<and> ss_ws s = ([], []) \<and>
     pending_ok (ml_client c) \<and> wfq_wf (ml_sched c) \<and> wfq_items (ml_sched c) = {#} \<and>
     wfq_wf (ss_sched s) \<and> wfq_items (ss_sched s) = {#} \<and>
     duplex_linked (ce_snow ce) dup (ce_postcard ce) n m (ml_noise c, ml_acc c) (ss_noise s, ss_acc s)"

section \<open>One step\<close>

lemma ml_on_cmd_wf: "ml_on_cmd env cmd arr s = (r, s') \<Longrightarrow> wfq_wf (ml_sched s) \<Longrightarrow> wfq_wf (ml_sched s')"
  by (auto simp: ml_on_cmd_def Let_def simp del: ml_flush.simps split: client_cmd.splits prod.splits option.splits dest!: ml_flush_wf)

lemma server_on_cmd_wf: "server_on_cmd env cmd s = (r, s') \<Longrightarrow> wfq_wf (ss_sched s) \<Longrightarrow> wfq_wf (ss_sched s')"
  by (auto simp: server_on_cmd_def Let_def simp del: server_flush.simps
      split: session_cmd.splits prod.splits option.splits dest!: server_flush_wf)

lemma dispatch_frame_next_id: "cl_next_id (dispatch_frame mp f c) = cl_next_id c"
  by (simp add: dispatch_frame_def notify_def deliver_event_def pending_remove_def update_request_def
      split: frame_kind.splits option.splits)

lemma dispatch_frame_handled:
  "cl_events (dispatch_frame mp f c) = cl_events c @ (if push_frame f then handled (cl_event_handler c) [f_data f] else [])"
  by (auto simp: dispatch_frame_def push_frame_def deliver_event_def pending_remove_def update_request_def Let_def
      handled_def notify_def word_gt_0 split: frame_kind.splits option.splits)

lemma request_start_handler:
  "cl_event_handler (snd (request_start data c)) = cl_event_handler c" "cl_events (snd (request_start data c)) = cl_events c"
  by (simp_all add: request_start_def pending_insert_def pending_discard_def pending_remove_def update_request_def
      Let_def split: option.splits)

text \<open>Registering a request and dispatching its answer settles it.\<close>

lemma request_answered:
  assumes "pending_ok c" "0 < cl_next_id c"
  shows "\<exists>cl. request_start data c = ((length (cl_requests c), \<lparr>f_id = cl_next_id c, f_kind = Message, f_data = data\<rparr>), cl) \<and>
    fst (request_poll (length (cl_requests c)) False
      (dispatch_frame mp \<lparr>f_id = cl_next_id c, f_kind = Message, f_data = reply\<rparr> cl)) = Some (Inr reply)"
proof -
  let ?cl = "snd (request_start data c)"
  have "request_start data c = ((length (cl_requests c), \<lparr>f_id = cl_next_id c, f_kind = Message, f_data = data\<rparr>), ?cl)"
    by (simp add: request_start_def Let_def)
  moreover have "cl_requests (dispatch_frame mp \<lparr>f_id = cl_next_id c, f_kind = Message, f_data = reply\<rparr> ?cl)
      ! length (cl_requests c) = (cl_next_id c, Sent (Inr reply))"
    using assms by (simp add: dispatch_response_eq pending_ok_start request_start_requests nth_on_id)
      (simp add: on_id_def nth_append)
  ultimately show ?thesis by (intro exI [of _ ?cl]) (simp add: request_poll_def)
qed

text \<open>The frame the client's loop sends is what the server's loop hands to its application.\<close>

lemma carry_up_ok:
  assumes env: "ce_socket ce = script_socket" "se_socket se = script_socket" "se_snow se = ce_snow ce"
      "se_postcard se = ce_postcard ce"
    and step: "in_step ce dup (frame_cost (ce_postcard ce) f + n) m c s"
    and f: "frame_fits (ce_postcard ce) (se_max_bytes se) f" "app_frame f"
  shows "\<exists>c1 s1 n'. carry_up ce se p now f (c, s) = Some (c1, s1) \<and> ml_client c1 = ml_client c \<and>
    ss_inbox s1 = ss_inbox s @ [f] \<and> n \<le> n' \<and> in_step ce dup n' m c1 s1"
proof -
  note in_step = step [unfolded in_step_def]
  from in_step have link: "duplex_linked (ce_snow ce) dup (ce_postcard ce) (frame_cost (ce_postcard ce) f + n) m
      (ml_noise c, ml_acc c) (ss_noise s, ss_acc s)" by simp
  have "sends_ok (ce_socket ce) snd" by (simp add: env script_sends_ok)
  from ml_send_packets [OF this, of c "[]" f "se_max_bytes se" "\<lambda>k s r. dup k m s r" n "(ss_noise s, ss_acc s)" p]
    in_step f(1) duplex_forth [OF link]
  obtain c1 ps fs peer n' where sent: "ml_on_cmd ce (Send f p) [] c = (Continue, c1)" "snd (ml_ws c1) = map Binary ps"
    "feed_chunks (receive_packet (ce_snow ce) (ce_postcard ce) (se_max_bytes se)) (ss_noise s, ss_acc s) ps = (Inr fs, peer)"
    "mset fs = {#f#}" "wfq_items (ml_sched c1) = {#}" "ml_client c1 = ml_client c" "ml_acc c1 = ml_acc c" "n \<le> n'"
    "frame_linked (ce_snow ce) (\<lambda>k s r. dup k m s r) (ce_postcard ce) n' (ml_noise c1) peer"
    by (auto simp del: split_paired_Ex)
  from sent(4) have fs: "fs = [f]" by simp
  from server_receive_script [OF env(2), of "s\<lparr>ss_ws := (map (\<lambda>p. Inr (MBinary p)) ps, [])\<rparr>" ps fs "fst peer" "snd peer"
      "[]" "[]" "map (\<lambda>_. now) ps"] sent(3) env fs f(2)
  obtain s1 where "run_turns (server_handle se) (map (\<lambda>_. WsReady now True) ps)
        (s\<lparr>ss_ws := (map (\<lambda>p. Inr (MBinary p)) ps, [])\<rparr>) = (Continue, s1)"
      "ss_inbox s1 = ss_inbox s @ [f]" "ss_noise s1 = fst peer" "ss_acc s1 = snd peer" "ss_sched s1 = ss_sched s"
      "ss_ws s1 = ([], [])"
    by (auto simp: comp_def app_frame_def queue_pongs_def)
  moreover from ml_on_cmd_input [OF env(1) sent(1)] sent(2) in_step have "ml_ws c1 = ([], map Binary ps)"
    by (simp add: prod_eq_iff)
  ultimately show ?thesis using sent in_step ml_on_cmd_wf [OF sent(1)] duplex_forth_step [OF link sent(9)]
    by (intro exI [of _ "c1\<lparr>ml_ws := ([], [])\<rparr>"] exI [of _ s1] exI [of _ n'])
      (simp add: carry_up_def server_reads_def transmit_up_def comp_def in_step_def)
qed

text \<open>And back: the frame the server's loop sends is what the client dispatches.\<close>

lemma carry_down_ok:
  assumes env: "ce_socket ce = script_socket" "se_socket se = script_socket" "se_snow se = ce_snow ce"
      "se_postcard se = ce_postcard ce"
    and step: "in_step ce dup n (frame_cost (ce_postcard ce) g + m) c s"
    and g: "frame_fits (ce_postcard ce) (cc_max_payload_bytes (ce_config ce)) g"
  shows "\<exists>c1 s1. carry_down ce se q now g (c, s) = Some (c1, s1) \<and> ml_client c1 = dispatch_frame (ce_mpsc ce) g (ml_client c) \<and>
    ss_inbox s1 = ss_inbox s \<and> in_step ce dup n m c1 s1"
proof -
  note in_step = step [unfolded in_step_def]
  from in_step have link: "duplex_linked (ce_snow ce) dup (ce_postcard ce) n (frame_cost (ce_postcard ce) g + m)
      (ml_noise c, ml_acc c) (ss_noise s, ss_acc s)" by simp
  have "sends_ok (se_socket se) snd" by (simp add: env script_sends_ok)
  from server_send_packets [OF this, of s g "cc_max_payload_bytes (ce_config ce)" "\<lambda>k s r. dup n k r s" m
      "(ml_noise c, ml_acc c)" q] in_step g duplex_back [OF link] env
  obtain s1 ps gs peer where answer: "server_on_cmd se (SendFrame g q) s = (Continue, s1)"
    "snd (ss_ws s1) = map MBinary ps"
    "feed_chunks (receive_packet (ce_snow ce) (ce_postcard ce) (cc_max_payload_bytes (ce_config ce)))
       (ml_noise c, ml_acc c) ps = (Inr gs, peer)"
    "mset gs = {#g#}" "wfq_items (ss_sched s1) = {#}"
    "frame_linked (ce_snow ce) (\<lambda>k s r. dup n k r s) (ce_postcard ce) m (ss_noise s1) peer"
    by (auto simp del: split_paired_Ex drain.simps)
  from answer(4) have gs: "gs = [g]" by simp
  from ml_receive_script [OF env(1), of "c\<lparr>ml_ws := (map (\<lambda>p. Inr (Binary p)) ps, [])\<rparr>" ps gs "fst peer" "snd peer"
      "[]" "[]" "map (\<lambda>_. now) ps"] answer(3) gs
  obtain c1 where "run_turns (ml_handle ce) (map (\<lambda>_. MlWs now) ps) (c\<lparr>ml_ws := (map (\<lambda>p. Inr (Binary p)) ps, [])\<rparr>) = (Continue, c1)"
      "ml_client c1 = dispatch_frame (ce_mpsc ce) g (ml_client c)" "ml_noise c1 = fst peer" "ml_acc c1 = snd peer"
      "ml_sched c1 = ml_sched c" "ml_ws c1 = ([], [])"
    by (auto simp: comp_def)
  moreover from server_on_cmd_input [OF env(2) answer(1)] answer(2) in_step have "ss_ws s1 = ([], map MBinary ps)"
    by (simp add: prod_eq_iff)
  ultimately show ?thesis
    using answer in_step server_on_cmd_wf [OF answer(1)] server_on_cmd_frame [OF answer(1)] duplex_back_step [OF link answer(6)]
    by (intro exI [of _ c1] exI [of _ "s1\<lparr>ss_ws := ([], [])\<rparr>"])
      (simp add: carry_down_def client_reads_def transmit_down_def comp_def in_step_def pending_ok_dispatch)
qed

text \<open>Whatever the applications do next, it reaches the other side, and only that.\<close>

lemma talk_step_ok:
  fixes ce :: "('h, 't, (rstr + client_message) list \<times> client_message list, 'c) client_env"
    and c :: "('h, 't, (rstr + client_message) list \<times> client_message list, 'c, 'e) msg_loop"
  assumes env: "ce_socket ce = script_socket" "se_socket se = script_socket" "se_snow se = ce_snow ce"
      "se_postcard se = ce_postcard ce"
    and i: "i = cl_next_id (ml_client c)"
    and step: "in_step ce dup (sum_list (map (frame_cost (ce_postcard ce)) (up i x)) + n)
      (sum_list (map (frame_cost (ce_postcard ce)) (down i x)) + m) c s"
    and fits: "\<forall>f \<in> set (up i x). (f_kind f = Message \<longrightarrow> 0 < f_id f) \<and> frame_fits (ce_postcard ce) (se_max_bytes se) f"
      "\<forall>g \<in> set (down i x). frame_fits (ce_postcard ce) (cc_max_payload_bytes (ce_config ce)) g"
  shows "\<exists>c' s' n'. talk_step ce se now x (c, s) = Some (map (Some \<circ> Inr) (replies [x]), c', s') \<and>
    ss_inbox s' = ss_inbox s @ up i x \<and> cl_next_id (ml_client c') = next_id i x \<and>
    cl_event_handler (ml_client c') = cl_event_handler (ml_client c) \<and>
    cl_events (ml_client c') = cl_events (ml_client c) @ handled (cl_event_handler (ml_client c)) (pushed [x]) \<and>
    n \<le> n' \<and> in_step ce dup n' m c' s'"
proof (cases x)
  case (Ask p q data reply)
  let ?k = "length (cl_requests (ml_client c))" and ?f = "\<lparr>f_id = i, f_kind = Message, f_data = data\<rparr>"
  let ?g = "\<lparr>f_id = i, f_kind = Message, f_data = reply\<rparr>"
  from step have pend: "pending_ok (ml_client c)" by (simp add: in_step_def)
  from fits(1) have id: "0 < i" by (simp add: Ask)
  with request_answered [OF pend, of data "ce_mpsc ce" reply] obtain cl where
    cl: "request_start data (ml_client c) = ((?k, ?f), cl)"
      "fst (request_poll ?k False (dispatch_frame (ce_mpsc ce) ?g cl)) = Some (Inr reply)"
    by (auto simp: i)
  have cl_ok: "pending_ok cl" "cl_next_id cl = i + 1" "cl_event_handler cl = cl_event_handler (ml_client c)"
    "cl_events cl = cl_events (ml_client c)"
    using pending_ok_start [OF pend, of data] request_start_id [of data "ml_client c"] request_start_handler [of data "ml_client c"]
    by (simp_all add: cl(1) i)
  have "in_step ce dup (frame_cost (ce_postcard ce) ?f + n) (frame_cost (ce_postcard ce) ?g + m) (c\<lparr>ml_client := cl\<rparr>) s"
    using step cl_ok(1) by (simp add: Ask in_step_def)
  from carry_up_ok [OF env this, of p now] fits(1) obtain c1 s1 n' where
    forth: "carry_up ce se p now ?f (c\<lparr>ml_client := cl\<rparr>, s) = Some (c1, s1)" "ml_client c1 = cl" "ss_inbox s1 = ss_inbox s @ [?f]"
      "n \<le> n'" "in_step ce dup n' (frame_cost (ce_postcard ce) ?g + m) c1 s1"
    by (auto simp: Ask app_frame_def)
  from carry_down_ok [OF env forth(5), of q now] fits(2) obtain c2 s2 where
    "carry_down ce se q now ?g (c1, s1) = Some (c2, s2)" "ml_client c2 = dispatch_frame (ce_mpsc ce) ?g cl"
      "ss_inbox s2 = ss_inbox s1" "in_step ce dup n' m c2 s2"
    by (auto simp: Ask forth(2))
  with cl cl_ok forth id show ?thesis
    by (intro exI [of _ c2] exI [of _ s2] exI [of _ n'])
      (simp add: Ask dispatch_frame_next_id dispatch_frame_handler dispatch_frame_handled push_frame_def word_gt_0)
next
  case (Push q data)
  with carry_down_ok [OF env, of dup n "event_frame data" m c s q now] step fits(2) show ?thesis
    by (auto simp: dispatch_frame_next_id i dispatch_frame_handler dispatch_frame_handled push_frame_def event_frame_def)
next
  case (Notify p data)
  with carry_up_ok [OF env, of dup "event_frame data" n m c s p now] step fits(1) show ?thesis
    by (auto simp: i app_frame_def event_frame_def)
qed

section \<open>Conversations\<close>

lemma replies_Cons: "replies (x # xs) = replies [x] @ replies xs"
  by (cases x) simp_all

lemma pushed_Cons: "pushed (x # xs) = pushed [x] @ pushed xs"
  by (cases x) simp_all

lemma conversation_ok:
  fixes ce :: "('h, 't, (rstr + client_message) list \<times> client_message list, 'c) client_env"
    and c :: "('h, 't, (rstr + client_message) list \<times> client_message list, 'c, 'e) msg_loop"
  assumes env: "ce_socket ce = script_socket" "se_socket se = script_socket" "se_snow se = ce_snow ce"
      "se_postcard se = ce_postcard ce"
  shows "in_step ce dup n m c s \<Longrightarrow> i = cl_next_id (ml_client c) \<Longrightarrow>
    \<forall>f \<in> set (asked i xs). (f_kind f = Message \<longrightarrow> 0 < f_id f) \<and> frame_fits (ce_postcard ce) (se_max_bytes se) f \<Longrightarrow>
    \<forall>g \<in> set (answered i xs). frame_fits (ce_postcard ce) (cc_max_payload_bytes (ce_config ce)) g \<Longrightarrow>
    sum_list (map (frame_cost (ce_postcard ce)) (asked i xs)) \<le> n \<Longrightarrow>
    sum_list (map (frame_cost (ce_postcard ce)) (answered i xs)) \<le> m \<Longrightarrow>
    \<exists>c' s' n' m'. conversation ce se now xs (c, s) = Some (map (Some \<circ> Inr) (replies xs), c', s') \<and>
      ss_inbox s' = ss_inbox s @ asked i xs \<and>
      cl_events (ml_client c') = cl_events (ml_client c) @ handled (cl_event_handler (ml_client c)) (pushed xs) \<and>
      in_step ce dup n' m' c' s'"
proof (induction xs arbitrary: i n m c s)
  case Nil
  then show ?case by auto
next
  case (Cons x xs)
  let ?cost = "\<lambda>fs. sum_list (map (frame_cost (ce_postcard ce)) fs)"
  from Cons.prems(5,6) obtain k j where kj: "n = ?cost (up i x) + k" "m = ?cost (down i x) + j"
    "?cost (asked (next_id i x) xs) \<le> k" "?cost (answered (next_id i x) xs) \<le> j"
    using that [of "n - ?cost (up i x)" "m - ?cost (down i x)"] by auto
  from talk_step_ok [OF env Cons.prems(2) Cons.prems(1) [unfolded kj(1,2)], of now] Cons.prems(3,4)
  obtain c1 s1 k' where st: "talk_step ce se now x (c, s) = Some (map (Some \<circ> Inr) (replies [x]), c1, s1)"
    "ss_inbox s1 = ss_inbox s @ up i x" "cl_next_id (ml_client c1) = next_id i x"
    "cl_event_handler (ml_client c1) = cl_event_handler (ml_client c)"
    "cl_events (ml_client c1) = cl_events (ml_client c) @ handled (cl_event_handler (ml_client c)) (pushed [x])"
    "k \<le> k'" "in_step ce dup k' j c1 s1"
    by (auto simp del: replies.simps pushed.simps talk_step.simps)
  from Cons.IH [OF st(7) st(3) [symmetric]] Cons.prems(3,4) kj(3,4) st(6)
  obtain c' s' n' m' where "conversation ce se now xs (c1, s1) = Some (map (Some \<circ> Inr) (replies xs), c', s')"
    "ss_inbox s' = ss_inbox s1 @ asked (next_id i x) xs"
    "cl_events (ml_client c') = cl_events (ml_client c1) @ handled (cl_event_handler (ml_client c1)) (pushed xs)"
    "in_step ce dup n' m' c' s'"
    by auto
  with st(1,2,4,5) show ?case unfolding replies_Cons [of x xs] pushed_Cons [of x xs]
    by (intro exI [of _ c'] exI [of _ s'] exI [of _ n'] exI [of _ m']) (simp del: replies.simps pushed.simps talk_step.simps)
qed

section \<open>Properties\<close>

text \<open>
  C3. An open connection carries what both applications say, and nothing else.  Whatever they do
  one after the other, each request of the client returns the bytes the server answered it with;
  the server's application sees exactly the client's requests and events, in order, the
  requests under consecutive ids; the client's event handler, if there is one, is called
  exactly with the events the server pushed, in order; and both loops are still running, with
  everything written read, nothing left in a queue and the Noise sessions in step.
\<close>

theorem conversation_complete:
  fixes ce :: "('h, 't, (rstr + client_message) list \<times> client_message list, 'c) client_env"
    and c :: "('h, 't, (rstr + client_message) list \<times> client_message list, 'c, 'e) msg_loop"
  assumes "ce_socket ce = script_socket" "se_socket se = script_socket" "se_snow se = ce_snow ce"
      "se_postcard se = ce_postcard ce"
    and "in_step ce dup n m c s" "i = cl_next_id (ml_client c)"
    and "\<forall>f \<in> set (asked i xs). (f_kind f = Message \<longrightarrow> 0 < f_id f) \<and> frame_fits (ce_postcard ce) (se_max_bytes se) f"
    and "\<forall>g \<in> set (answered i xs). frame_fits (ce_postcard ce) (cc_max_payload_bytes (ce_config ce)) g"
    and "sum_list (map (frame_cost (ce_postcard ce)) (asked i xs)) \<le> n"
    and "sum_list (map (frame_cost (ce_postcard ce)) (answered i xs)) \<le> m"
  shows "\<exists>c' s' n' m'. conversation ce se now xs (c, s) = Some (map (Some \<circ> Inr) (replies xs), c', s') \<and>
      ss_inbox s' = ss_inbox s @ asked i xs \<and>
      cl_events (ml_client c') = cl_events (ml_client c) @ handled (cl_event_handler (ml_client c)) (pushed xs) \<and>
      in_step ce dup n' m' c' s'"
  using assms(5-) by (rule conversation_ok [OF assms(1-4)])

theorem conversation_complete_witness:
  "\<exists>c' s'. conversation sample_ml_env sample_env 7
      [Ask Normal Bulk [1, 2] [3], Push RealTime [8], Notify Stream [9], Ask RealTime Stream [4] []]
      (sample_ml\<lparr>ml_client := on_event 5 (ml_client sample_ml)\<rparr>, sample_session) = Some ([Some (Inr [3]), Some (Inr [])], c', s') \<and>
    ss_inbox s' = [\<lparr>f_id = 2, f_kind = Message, f_data = [1, 2]\<rparr>, \<lparr>f_id = 0, f_kind = Event, f_data = [9]\<rparr>,
      \<lparr>f_id = 3, f_kind = Message, f_data = [4]\<rparr>] \<and>
    cl_events (ml_client c') = [(5, [8])]"
proof -
  let ?xs = "[Ask Normal Bulk [1, 2] [3], Push RealTime [8], Notify Stream [9], Ask RealTime Stream [4] []]"
  let ?ml = "sample_ml\<lparr>ml_client := on_event 5 (ml_client sample_ml)\<rparr>"
  have client: "ml_client sample_ml = ws_client_new (\<lambda>_. []) sample_auth_config" by (simp add: sample_ml_def msg_loop_new_def)
  have cid: "2 = cl_next_id (ml_client ?ml)" by (simp add: client ws_client_new_def on_event_def)
  have ev: "cl_event_handler (on_event 5 (ml_client sample_ml)) = Some 5" "cl_events (on_event 5 (ml_client sample_ml)) = []"
    by (simp_all add: client ws_client_new_def on_event_def)
  have "pending_ok (ml_client ?ml)" using pending_ok_new [of "\<lambda>_. []" sample_auth_config]
    by (simp add: client pending_ok_def on_event_def)
  then have step: "in_step sample_ml_env sample_dup 4 5 ?ml sample_session"
    unfolding in_step_def duplex_linked_def using sample_dup_ok
    by (simp add: sample_postcard_ok) (simp add: sample_dup_def)
  have cost: "sum_list (map (frame_cost sample_postcard) (asked 2 ?xs)) \<le> 4"
    "sum_list (map (frame_cost sample_postcard) (answered 2 ?xs)) \<le> 5"
    by (simp_all add: frame_cost_def encode_frame_def event_frame_def)
  have fits: "\<forall>f \<in> set (asked 2 ?xs). (f_kind f = Message \<longrightarrow> 0 < f_id f) \<and> frame_fits sample_postcard (se_max_bytes sample_env) f"
    "\<forall>g \<in> set (answered 2 ?xs). frame_fits sample_postcard (cc_max_payload_bytes (ce_config sample_ml_env)) g"
    by (simp_all add: frame_fits_def sample_auth_config_def event_frame_def)
  from conversation_complete [of sample_ml_env sample_env, OF _ _ _ _ step cid, of ?xs 7] cost fits
  show ?thesis by (auto simp: ev handled_def event_frame_def simp del: split_paired_Ex conversation.simps)
qed

end
