(* ===== verification/Login.thy ===== *)
theory Login
  imports ConnLoop Handshake Exchange
begin

text \<open>
  A client going online against a server: both handshakes, authentication through the server's
  session, and the start of the client's message loop.  This composes
  \<open>src/ws/client/connection_loop.rs\<close> with \<open>src/ws/server/mod.rs\<close> and \<open>src/ws/server/session.rs\<close>
  over scripted sockets, where each side reads what the other one wrote.
\<close>

section \<open>Both handshakes\<close>

lemma handshakes_meet:
  fixes sn :: "('h, 't) snow"
  assumes "valid_protocol (cc_protocol_name ccfg) (cc_protocol_version ccfg)"
    and "\<forall>c \<in> set (cc_protocol_name ccfg @ cc_protocol_version ccfg). c < 0x110000"
    and "sc_protocol_name scfg = cc_protocol_name ccfg" "sc_protocol_version scfg = cc_protocol_version ccfg"
    and "noise_client cb (cc_noise_server_key ccfg) = Inr (\<lparr>ns_state = Some (Handshake hi)\<rparr> :: ('h, 't) noise_session)"
    and "noise_server sb (sc_noise_private_key scfg) = Inr (\<lparr>ns_state = Some (Handshake hr)\<rparr> :: ('h, 't) noise_session)"
    and "snow_handshake_ok sn pair n hi hr"
  obtains hello m1 m2 m3 ti tr where
    "\<And>rest. client_version_handshake script_socket ccfg (Inr (Text (lit ''PROTOCOL_ACCEPTED'')) # rest, []) =
       (VersionOk, rest, [Text hello])"
    "\<And>rest. client_noise_handshake sn cb script_socket ccfg (Inr (Binary m2) # rest, [Text hello]) =
       (Inr \<lparr>ns_state = Some (Transport ti)\<rparr>, rest, [Text hello, Binary m1, Binary m3])"
    "accept_ws_session sn sb script_socket new_channel i scfg ([Inr (MText hello), Inr (MBinary m1), Inr (MBinary m3)], []) =
       (Inr (\<lparr>sh_id = i, sh_cmd_tx = new_channel (sc_buffer_size scfg), sh_state = Online\<rparr>,
             \<lparr>ns_state = Some (Transport tr)\<rparr>), [], [MText (lit ''PROTOCOL_ACCEPTED''), MBinary m2])"
    "pair n ti tr"
proof -
  from assms(1,2) have "\<forall>c \<in> set (cc_protocol_name ccfg @ cc_protocol_version ccfg). protocol_char c"
    using validate_protocol_string_iff [of "cc_protocol_name ccfg"] validate_protocol_string_iff [of "cc_protocol_version ccfg"]
    by (auto simp: valid_protocol_def)
  then have acc: "hello_accepted scfg (client_hello ccfg)"
    using hello_accepted_iff [of scfg "cc_protocol_name ccfg" "cc_protocol_version ccfg"] assms(3,4)
    by (auto simp: client_hello_def)
  from noise_handshakes_states [OF assms(5-7)] obtain m1 m2 m3 ti tr where
    m: "\<And>rest out. client_noise_handshake sn cb script_socket ccfg (Inr (Binary m2) # rest, out) =
         (Inr \<lparr>ns_state = Some (Transport ti)\<rparr>, (rest, out @ [Binary m1, Binary m3]))"
      "\<And>rest out. server_noise_handshake sn sb script_socket scfg (Inr (MBinary m1) # Inr (MBinary m3) # rest, out) =
         (Inr \<lparr>ns_state = Some (Transport tr)\<rparr>, (rest, out @ [MBinary m2]))"
      "pair n ti tr" by metis
  show thesis
  proof (rule that [of "client_hello ccfg" m2 ti m1 m3 tr])
    show "client_version_handshake script_socket ccfg (Inr (Text (lit ''PROTOCOL_ACCEPTED'')) # rest, []) =
        (VersionOk, rest, [Text (client_hello ccfg)])" for rest
      by (simp add: client_version_handshake_def)
    show "client_noise_handshake sn cb script_socket ccfg (Inr (Binary m2) # rest, [Text (client_hello ccfg)]) =
        (Inr \<lparr>ns_state = Some (Transport ti)\<rparr>, rest, [Text (client_hello ccfg), Binary m1, Binary m3])" for rest
      by (simp add: m(1))
    show "accept_ws_session sn sb script_socket new_channel i scfg
        ([Inr (MText (client_hello ccfg)), Inr (MBinary m1), Inr (MBinary m3)], []) =
       (Inr (\<lparr>sh_id = i, sh_cmd_tx = new_channel (sc_buffer_size scfg), sh_state = Online\<rparr>,
             \<lparr>ns_state = Some (Transport tr)\<rparr>), [], [MText (lit ''PROTOCOL_ACCEPTED''), MBinary m2])"
      using acc by (simp add: accept_ws_session_def server_verdict m(2))
  qed (fact m(3))
qed

section \<open>Authentication\<close>

text \<open>
  The credentials reach the server's inbox, and the reply its application sends under id 1
  reaches the client's handler.
\<close>

lemma auth_meets:
  assumes link: "duplex_linked sn dup pc (frame_cost pc (auth_frame creds) + n) (frame_cost pc g + m)
      (nc, acc_new) (ss_noise s, ss_acc s)"
    and env: "se_snow se = sn" "se_postcard se = pc" "se_socket se = script_socket"
    and s: "wfq_wf (ss_sched s)" "wfq_items (ss_sched s) = {#}"
    and g: "g = \<lparr>f_id = 1, f_kind = Message, f_data = reply\<rparr>"
    and fits: "frame_fits pc (se_max_bytes se) (auth_frame creds)" "frame_fits pc (cc_max_payload_bytes cfg) g"
    and auth: "auth_payload auth u = (Some creds, u1)" "process_auth_response auth u1 reply = (outcome, u2)"
    and budget: "frame_cost pc g \<le> budget"
  shows "\<exists>ps qs s1 s2 nc'.
    run_turns (server_handle se) (map (\<lambda>_. WsReady now True) ps) (s\<lparr>ss_ws := (map (\<lambda>p. Inr (MBinary p)) ps, [])\<rparr>) =
      (Continue, s1) \<and>
    ss_inbox s1 = ss_inbox s @ [auth_frame creds] \<and>
    server_on_cmd se (SendFrame g q) s1 = (Continue, s2) \<and> snd (ss_ws s2) = map MBinary qs \<and>
    (\<forall>out. handle_auth sn pc script_socket auth cfg budget u nc (map (\<lambda>p. Inr (Binary p)) qs, out) =
       \<lparr>ar_result = fst (auth_outcome_result outcome), ar_states = WaitingForAuth # snd (auth_outcome_result outcome),
        ar_user = u2, ar_noise = nc', ar_ws = ([], out @ map Binary ps)\<rparr>) \<and>
    wfq_wf (ss_sched s2) \<and> wfq_items (ss_sched s2) = {#} \<and>
    duplex_linked sn dup pc n m (nc', acc_new) (ss_noise s2, ss_acc s2)"
proof -
  let ?f = "auth_frame creds"
  from wire.pack_recv [OF duplex_forth [OF link] fits(1)] obtain ps nc1 peer where
    f: "pack_frame sn pc nc ?f = (Inr ps, nc1)"
      "feed_chunks (receive_packet sn pc (se_max_bytes se)) (ss_noise s, ss_acc s) ps = (Inr [?f], peer)"
      "frame_linked sn (\<lambda>k s r. dup k (frame_cost pc g + m) s r) pc n nc1 peer" by auto
  note mid = duplex_forth_step [OF link f(3), unfolded snd_conv]
  from server_receive_script [OF env(3), of "s\<lparr>ss_ws := (map (\<lambda>p. Inr (MBinary p)) ps, [])\<rparr>" ps "[?f]" "fst peer" "snd peer"
      "[]" "[]" "map (\<lambda>_. now) ps"] f(2) env
  obtain s1 where s1: "run_turns (server_handle se) (map (\<lambda>_. WsReady now True) ps)
        (s\<lparr>ss_ws := (map (\<lambda>p. Inr (MBinary p)) ps, [])\<rparr>) = (Continue, s1)"
      "ss_inbox s1 = ss_inbox s @ [?f]" "ss_noise s1 = fst peer" "ss_acc s1 = snd peer" "ss_ws s1 = ([], [])"
      "ss_sched s1 = ss_sched s"
    by (auto simp: comp_def app_frame_def queue_pongs_def auth_frame_def)
  have "sends_ok (se_socket se) snd" by (simp add: env script_sends_ok)
  from server_send_packs [OF this, of s1 g "cc_max_payload_bytes cfg" "\<lambda>k s r. dup n k r s" m "(nc1, acc_new)" q]
    s s1 fits(2) duplex_back [OF mid] env
  obtain s2 pss gs peer2 where answer: "server_on_cmd se (SendFrame g q) s1 = (Continue, s2)"
    "try_map (pack_frame sn pc) (ss_noise s1) gs = (Inr pss, ss_noise s2)"
    "snd (ss_ws s2) = map MBinary (concat pss)"
    "feed_chunks (receive_packet sn pc (cc_max_payload_bytes cfg)) (nc1, acc_new) (concat pss) = (Inr gs, peer2)"
    "mset gs = {#g#}" "frame_linked sn (\<lambda>k s r. dup n k r s) pc m (ss_noise s2) peer2"
    "wfq_items (ss_sched s2) = {#}"
    by (auto simp del: split_paired_Ex drain.simps)
  have gs: "gs = [g]" using answer(5) by simp
  with answer(2) obtain qs where qs: "pss = [qs]" "pack_frame sn pc (ss_noise s1) g = (Inr qs, ss_noise s2)"
    by (auto split: prod.splits sum.splits)
  have rev: "frame_linked sn (\<lambda>k s r. dup n k r s) pc (frame_cost pc g + m) (ss_noise s1) (nc1, acc_new)"
    using duplex_back [OF mid] s1(3) by simp
  from wire.pack_recv [OF this fits(2)] qs(2) have len: "length qs = frame_cost pc g" by auto
  have early: "\<forall>a b. qs = a @ b \<and> b \<noteq> [] \<longrightarrow>
      (\<exists>r. feed_chunks (receive_packet sn pc (cc_max_payload_bytes cfg)) (nc1, acc_new) a = (Inr [], r))"
    using wire.recv_early [OF rev fits(2)] qs(2) by metis
  have recv: "recv_one_frame sn pc script_socket (cc_max_payload_bytes cfg) budget
      ((nc1, acc_new), map (\<lambda>p. Inr (Binary p)) qs, out) = (Some (Inr g), peer2, [], out)" for out
    using recv_one_frame_script [of sn pc "cc_max_payload_bytes cfg" "(nc1, acc_new)" qs g peer2 budget "[]" out]
      answer(4) gs qs(1) early len budget by simp
  obtain e where "encode_frame pc ?f = Inr e" using f(1) by (auto simp: pack_frame_def split: sum.splits)
  then have "handle_auth sn pc script_socket auth cfg budget u nc (map (\<lambda>p. Inr (Binary p)) qs, out) =
       \<lparr>ar_result = fst (auth_outcome_result outcome), ar_states = WaitingForAuth # snd (auth_outcome_result outcome),
        ar_user = u2, ar_noise = fst peer2, ar_ws = ([], out @ map Binary ps)\<rparr>"
    for out
    by (simp add: handle_auth_def auth send_frame_script [OF f(1)] recv g split: prod.splits)
  moreover have "duplex_linked sn dup pc n m (fst peer2, acc_new) (ss_noise s2, ss_acc s2)"
    using duplex_back_step [OF mid, of m "ss_noise s2" peer2] answer(6) server_on_cmd_frame [OF answer(1)] s1(4)
    by (cases peer2) (simp add: frame_linked_def)
  moreover have "wfq_wf (ss_sched s2)" using server_on_cmd_wf [OF answer(1)] s(1) s1(6) by simp
  ultimately show ?thesis
    using s1(1,2) answer(1,3,7) qs(1) by (intro exI [of _ ps] exI [of _ qs] exI [of _ s1] exI [of _ s2] exI [of _ "fst peer2"]) simp
qed

text \<open>
  A client and a server that can meet: they agree on the protocol's name and version, the Noise
  library accepts their keys, and \<open>dup\<close> says how long it keeps their sessions in step.
\<close>

definition can_meet ::
  "('h, 't, (rstr + client_message) list \<times> client_message list, 'c, 'p, 'b, 'u) conn_env \<Rightarrow> ('p, 'b, 'h) snow_builder \<Rightarrow>
   ws_server_config \<Rightarrow> (nat \<Rightarrow> nat \<Rightarrow> 't \<Rightarrow> 't \<Rightarrow> bool) \<Rightarrow> nat \<Rightarrow> bool" where
  "can_meet env sb scfg dup n \<longleftrightarrow>
     (let cfg = ce_config (cn_env env); sn = ce_snow (cn_env env) in
      ce_socket (cn_env env) = script_socket \<and> postcard_ok (ce_postcard (cn_env env)) \<and>
      valid_protocol (cc_protocol_name cfg) (cc_protocol_version cfg) \<and>
      (\<forall>c \<in> set (cc_protocol_name cfg @ cc_protocol_version cfg). c < 0x110000) \<and>
      sc_protocol_name scfg = cc_protocol_name cfg \<and> sc_protocol_version scfg = cc_protocol_version cfg \<and>
      (\<exists>hi hr. noise_client (cn_builder env) (cc_noise_server_key cfg) =
           Inr (\<lparr>ns_state = Some (Handshake hi)\<rparr> :: ('h, 't) noise_session) \<and>
         noise_server sb (sc_noise_private_key scfg) = Inr (\<lparr>ns_state = Some (Handshake hr)\<rparr> :: ('h, 't) noise_session) \<and>
         snow_handshake_ok sn (\<lambda>k a b. dup k k a b) n hi hr) \<and>
      (\<forall>j. snow_transport_ok sn (\<lambda>k a b. dup k j a b)) \<and> (\<forall>j. snow_transport_ok sn (\<lambda>k a b. dup j k b a)))"

lemma can_meet_handshakes:
  fixes env :: "('h, 't, (rstr + client_message) list \<times> client_message list, 'c, 'p, 'b, 'u) conn_env"
  assumes "can_meet env sb scfg dup n"
  obtains hello m1 m2 m3 ti tr where
    "\<And>rest. client_version_handshake script_socket (ce_config (cn_env env)) (Inr (Text (lit ''PROTOCOL_ACCEPTED'')) # rest, []) =
       (VersionOk, rest, [Text hello])"
    "\<And>rest. client_noise_handshake (ce_snow (cn_env env)) (cn_builder env) script_socket (ce_config (cn_env env))
       (Inr (Binary m2) # rest, [Text hello]) =
       (Inr \<lparr>ns_state = Some (Transport ti)\<rparr>, rest, [Text hello, Binary m1, Binary m3])"
    "accept_ws_session (ce_snow (cn_env env)) sb script_socket new_channel i scfg
       ([Inr (MText hello), Inr (MBinary m1), Inr (MBinary m3)], []) =
       (Inr (\<lparr>sh_id = i, sh_cmd_tx = new_channel (sc_buffer_size scfg), sh_state = Online\<rparr>,
             \<lparr>ns_state = Some (Transport tr)\<rparr>), [], [MText (lit ''PROTOCOL_ACCEPTED''), MBinary m2])"
    "duplex_linked (ce_snow (cn_env env)) dup (ce_postcard (cn_env env)) n n
       (\<lparr>ns_state = Some (Transport ti)\<rparr>, acc_new) (\<lparr>ns_state = Some (Transport tr)\<rparr>, acc_new)"
proof -
  from assms obtain hi hr where *:
    "valid_protocol (cc_protocol_name (ce_config (cn_env env))) (cc_protocol_version (ce_config (cn_env env)))"
    "\<forall>c \<in> set (cc_protocol_name (ce_config (cn_env env)) @ cc_protocol_version (ce_config (cn_env env))). c < 0x110000"
    "sc_protocol_name scfg = cc_protocol_name (ce_config (cn_env env))"
    "sc_protocol_version scfg = cc_protocol_version (ce_config (cn_env env))"
    "noise_client (cn_builder env) (cc_noise_server_key (ce_config (cn_env env))) =
       Inr (\<lparr>ns_state = Some (Handshake hi)\<rparr> :: ('h, 't) noise_session)"
    "noise_server sb (sc_noise_private_key scfg) = Inr (\<lparr>ns_state = Some (Handshake hr)\<rparr> :: ('h, 't) noise_session)"
    "snow_handshake_ok (ce_snow (cn_env env)) (\<lambda>k a b. dup k k a b) n hi hr"
    unfolding can_meet_def Let_def by blast
  from assms have ok: "postcard_ok (ce_postcard (cn_env env))"
    "\<forall>j. snow_transport_ok (ce_snow (cn_env env)) (\<lambda>k a b. dup k j a b)"
    "\<forall>j. snow_transport_ok (ce_snow (cn_env env)) (\<lambda>k a b. dup j k b a)"
    unfolding can_meet_def Let_def by blast+
  from handshakes_meet [OF *, of new_channel i] that ok show thesis
    by (simp add: duplex_linked_def) metis
qed

text \<open>The client's side: what an opened socket leads to.\<close>

lemma fold_cn_publish: "fold cn_publish sts s = s\<lparr>cn_client := fold publish sts (cn_client s)\<rparr>"
  by (induction sts arbitrary: s) (simp_all add: cn_publish_def)

lemma opened_online:
  assumes "cn_phase s = Opening url" "ce_socket (cn_env env) = script_socket"
    and "client_version_handshake script_socket (ce_config (cn_env env)) ws = (VersionOk, ws1)"
    and "client_noise_handshake (ce_snow (cn_env env)) (cn_builder env) script_socket (ce_config (cn_env env)) ws1 = (Inr nc, ws2)"
    and "handle_auth (ce_snow (cn_env env)) (ce_postcard (cn_env env)) script_socket (cn_auth env) (ce_config (cn_env env))
        budget (cn_user s) nc ws2 =
      \<lparr>ar_result = Inr (), ar_states = sts, ar_user = u2, ar_noise = nc', ar_ws = ws3\<rparr>"
  shows "\<exists>s'. conn_step env (Opened (Inr ws) budget t) s = s' \<and>
    cn_phase s' = Running (msg_loop_new (cn_env env) (cn_client s') ws3 nc' t) \<and> cn_attempt s' = 0 \<and> cn_user s' = u2 \<and>
    cn_client s' = fold publish (Handshaking # Authenticating # sts @ [Online]) (cn_client s)"
  using assms by (simp add: conn_opened_def conn_secure_def Let_def fold_cn_publish) (simp add: conn_defs)

lemma opened_rejected:
  assumes "cn_phase s = Opening url" "ce_socket (cn_env env) = script_socket"
    and "client_version_handshake script_socket (ce_config (cn_env env)) ws = (VersionOk, ws1)"
    and "client_noise_handshake (ce_snow (cn_env env)) (cn_builder env) script_socket (ce_config (cn_env env)) ws1 = (Inr nc, ws2)"
    and "handle_auth (ce_snow (cn_env env)) (ce_postcard (cn_env env)) script_socket (cn_auth env) (ce_config (cn_env env))
        budget (cn_user s) nc ws2 =
      \<lparr>ar_result = Inl transport_error.Unauthorized, ar_states = sts, ar_user = u2, ar_noise = nc', ar_ws = ws3\<rparr>"
  shows "\<exists>s'. conn_step env (Opened (Inr ws) budget t) s = s' \<and> cn_phase s' = WaitUnauthorized \<and> cn_user s' = u2 \<and>
    cn_client s' = pending_clear (fold publish (Handshaking # Authenticating # sts @ [connection_state.Unauthorized]) (cn_client s))"
  using assms by (simp add: conn_opened_def conn_secure_def Let_def fold_cn_publish) (simp add: conn_defs)

section \<open>Login\<close>

text \<open>
  Everything up to the handler's verdict: what each side wrote is what the other one read, and
  what the client's steps return.
\<close>

lemma login_meets:
  fixes env :: "('h, 't, (rstr + client_message) list \<times> client_message list, 'c, 'p, 'b, 'u) conn_env"
  assumes meet: "can_meet env sb scfg dup n"
    and pc: "pc = ce_postcard (cn_env env)" and sn: "sn = ce_snow (cn_env env)" and se: "se = config_env sn pc script_socket scfg"
    and g: "g = \<lparr>f_id = 1, f_kind = Message, f_data = reply\<rparr>"
    and fits: "frame_fits pc (sc_max_payload_bytes scfg) (auth_frame creds)"
      "frame_fits pc (cc_max_payload_bytes (ce_config (cn_env env))) g"
    and cost: "frame_cost pc (auth_frame creds) \<le> n" "frame_cost pc g \<le> n" "frame_cost pc g \<le> budget"
    and auth: "auth_payload (cn_auth env) u = (Some creds, u1)" "process_auth_response (cn_auth env) u1 reply = (outcome, u2)"
  obtains c2s s2c h ns ps qs s1 s2 ws1 nc ws2 nc' where
    "accept_ws_session sn sb script_socket new_channel i scfg (map Inr (map native_message c2s), []) =
      (Inr (h, ns), [], map native_message s2c)"
    "run_turns (server_handle se) (map (\<lambda>_. WsReady now True) ps)
      (server_session_new se (map (\<lambda>p. Inr (MBinary p)) ps, []) ns now) = (Continue, s1)"
    "ss_inbox s1 = [auth_frame creds]"
    "server_on_cmd se (SendFrame g q) s1 = (Continue, s2)" "snd (ss_ws s2) = map MBinary qs" "ss_inbox s2 = ss_inbox s1"
    "client_version_handshake script_socket (ce_config (cn_env env)) (map Inr (s2c @ map Binary qs), []) = (VersionOk, ws1)"
    "client_noise_handshake sn (cn_builder env) script_socket (ce_config (cn_env env)) ws1 = (Inr nc, ws2)"
    "handle_auth sn pc script_socket (cn_auth env) (ce_config (cn_env env)) budget u nc ws2 =
      \<lparr>ar_result = fst (auth_outcome_result outcome), ar_states = WaitingForAuth # snd (auth_outcome_result outcome),
       ar_user = u2, ar_noise = nc', ar_ws = ([], c2s @ map Binary ps)\<rparr>"
    "wfq_wf (ss_sched s2)" "wfq_items (ss_sched s2) = {#}"
    "duplex_linked sn dup pc (n - frame_cost pc (auth_frame creds)) (n - frame_cost pc g) (nc', acc_new) (ss_noise s2, ss_acc s2)"
proof -
  let ?cfg = "ce_config (cn_env env)"
  from can_meet_handshakes [OF meet, of new_channel i, folded sn pc] obtain hello m1 m2 m3 ti tr where
    hs: "\<And>rest. client_version_handshake script_socket ?cfg (Inr (Text (lit ''PROTOCOL_ACCEPTED'')) # rest, []) =
       (VersionOk, rest, [Text hello])"
    "\<And>rest. client_noise_handshake sn (cn_builder env) script_socket ?cfg (Inr (Binary m2) # rest, [Text hello]) =
       (Inr \<lparr>ns_state = Some (Transport ti)\<rparr>, rest, [Text hello, Binary m1, Binary m3])"
    "accept_ws_session sn sb script_socket new_channel i scfg ([Inr (MText hello), Inr (MBinary m1), Inr (MBinary m3)], []) =
       (Inr (\<lparr>sh_id = i, sh_cmd_tx = new_channel (sc_buffer_size scfg), sh_state = Online\<rparr>,
             \<lparr>ns_state = Some (Transport tr)\<rparr>), [], [MText (lit ''PROTOCOL_ACCEPTED''), MBinary m2])"
    "duplex_linked sn dup pc n n (\<lparr>ns_state = Some (Transport ti)\<rparr>, acc_new) (\<lparr>ns_state = Some (Transport tr)\<rparr>, acc_new)"
    by metis
  let ?s0 = "server_session_new se ([], []) \<lparr>ns_state = Some (Transport tr)\<rparr> now"
  let ?c2s = "[Text hello, Binary m1, Binary m3]" and ?s2c = "[Text (lit ''PROTOCOL_ACCEPTED''), Binary m2]"
  have link: "duplex_linked sn dup pc (frame_cost pc (auth_frame creds) + (n - frame_cost pc (auth_frame creds)))
      (frame_cost pc g + (n - frame_cost pc g)) (\<lparr>ns_state = Some (Transport ti)\<rparr>, acc_new) (ss_noise ?s0, ss_acc ?s0)"
    using hs(4) cost(1,2) by (simp add: server_session_new_def)
  have env: "se_snow se = sn" "se_postcard se = pc" "se_socket se = script_socket" by (simp_all add: se config_env_def)
  have "frame_fits pc (se_max_bytes se) (auth_frame creds)" using fits(1) by (simp add: se config_env_def)
  from auth_meets [where now = now and q = q, OF link env _ _ g this fits(2) auth cost(3)]
  obtain ps qs s1 s2 nc' where am:
    "run_turns (server_handle se) (map (\<lambda>_. WsReady now True) ps) (?s0\<lparr>ss_ws := (map (\<lambda>p. Inr (MBinary p)) ps, [])\<rparr>) =
      (Continue, s1)"
    "ss_inbox s1 = [auth_frame creds]" "server_on_cmd se (SendFrame g q) s1 = (Continue, s2)" "snd (ss_ws s2) = map MBinary qs"
    "\<And>out. handle_auth sn pc script_socket (cn_auth env) ?cfg budget u \<lparr>ns_state = Some (Transport ti)\<rparr>
        (map (\<lambda>p. Inr (Binary p)) qs, out) =
       \<lparr>ar_result = fst (auth_outcome_result outcome), ar_states = WaitingForAuth # snd (auth_outcome_result outcome),
        ar_user = u2, ar_noise = nc', ar_ws = ([], out @ map Binary ps)\<rparr>"
    "wfq_wf (ss_sched s2)" "wfq_items (ss_sched s2) = {#}"
    "duplex_linked sn dup pc (n - frame_cost pc (auth_frame creds)) (n - frame_cost pc g) (nc', acc_new) (ss_noise s2, ss_acc s2)"
    by (auto simp: server_session_new_def)
  have "server_session_new se (map (\<lambda>p. Inr (MBinary p)) ps, []) \<lparr>ns_state = Some (Transport tr)\<rparr> now =
      ?s0\<lparr>ss_ws := (map (\<lambda>p. Inr (MBinary p)) ps, [])\<rparr>" by (simp add: server_session_new_def)
  with am(1) have run: "run_turns (server_handle se) (map (\<lambda>_. WsReady now True) ps)
      (server_session_new se (map (\<lambda>p. Inr (MBinary p)) ps, []) \<lparr>ns_state = Some (Transport tr)\<rparr> now) = (Continue, s1)" by simp
  show thesis
    by (rule that [where s2c = ?s2c, OF _ run am(2-4) _ _ hs(2) am(5) [of ?c2s] am(6-8)])
      (use hs(1,3) server_on_cmd_frame [OF am(3)] in \<open>simp_all add: comp_def\<close>)
qed

lemma login_online:
  fixes env :: "('h, 't, (rstr + client_message) list \<times> client_message list, 'c, 'p, 'b, 'u) conn_env"
    and s :: "('h, 't, (rstr + client_message) list \<times> client_message list, 'c, 'e, 'u) conn"
  assumes meet: "can_meet env sb scfg dup n"
    and pc: "pc = ce_postcard (cn_env env)" and sn: "sn = ce_snow (cn_env env)" and se: "se = config_env sn pc script_socket scfg"
    and rest: "g = \<lparr>f_id = 1, f_kind = Message, f_data = reply\<rparr>"
      "frame_fits pc (sc_max_payload_bytes scfg) (auth_frame creds)"
      "frame_fits pc (cc_max_payload_bytes (ce_config (cn_env env))) g"
      "frame_cost pc (auth_frame creds) \<le> n" "frame_cost pc g \<le> n" "frame_cost pc g \<le> budget"
      "auth_payload (cn_auth env) (cn_user s) = (Some creds, u1)" "process_auth_response (cn_auth env) u1 reply = (Success, u2)"
    and start: "cn_phase s = Opening url"
  shows "\<exists>c2s s2c h ns ps qs s1 s2 s' nc'.
    accept_ws_session sn sb script_socket new_channel i scfg (map Inr (map native_message c2s), []) =
      (Inr (h, ns), [], map native_message s2c) \<and>
    run_turns (server_handle se) (map (\<lambda>_. WsReady now True) ps)
      (server_session_new se (map (\<lambda>p. Inr (MBinary p)) ps, []) ns now) = (Continue, s1) \<and>
    ss_inbox s1 = [auth_frame creds] \<and>
    server_on_cmd se (SendFrame g q) s1 = (Continue, s2) \<and> snd (ss_ws s2) = map MBinary qs \<and> ss_inbox s2 = ss_inbox s1 \<and>
    conn_step env (Opened (Inr (map Inr (s2c @ map Binary qs), [])) budget t) s = s' \<and>
    cn_phase s' = Running (msg_loop_new (cn_env env) (cn_client s') ([], c2s @ map Binary ps) nc' t) \<and>
    cn_attempt s' = 0 \<and> cn_user s' = u2 \<and>
    cn_client s' = fold publish [Handshaking, Authenticating, WaitingForAuth, Online] (cn_client s) \<and>
    wfq_wf (ss_sched s2) \<and> wfq_items (ss_sched s2) = {#} \<and>
    duplex_linked sn dup pc (n - frame_cost pc (auth_frame creds)) (n - frame_cost pc g) (nc', acc_new) (ss_noise s2, ss_acc s2)"
proof -
  from meet have sock: "ce_socket (cn_env env) = script_socket" by (simp add: can_meet_def Let_def)
  obtain c2s s2c h ns ps qs s1 s2 ws1 nc ws2 nc' where m:
    "accept_ws_session sn sb script_socket new_channel i scfg (map Inr (map native_message c2s), []) =
      (Inr (h, ns), [], map native_message s2c)"
    "run_turns (server_handle se) (map (\<lambda>_. WsReady now True) ps)
      (server_session_new se (map (\<lambda>p. Inr (MBinary p)) ps, []) ns now) = (Continue, s1)"
    "ss_inbox s1 = [auth_frame creds]"
    "server_on_cmd se (SendFrame g q) s1 = (Continue, s2)" "snd (ss_ws s2) = map MBinary qs" "ss_inbox s2 = ss_inbox s1"
    "client_version_handshake script_socket (ce_config (cn_env env)) (map Inr (s2c @ map Binary qs), []) = (VersionOk, ws1)"
    "client_noise_handshake sn (cn_builder env) script_socket (ce_config (cn_env env)) ws1 = (Inr nc, ws2)"
    "handle_auth sn pc script_socket (cn_auth env) (ce_config (cn_env env)) budget (cn_user s) nc ws2 =
      \<lparr>ar_result = fst (auth_outcome_result Success), ar_states = WaitingForAuth # snd (auth_outcome_result Success),
       ar_user = u2, ar_noise = nc', ar_ws = ([], c2s @ map Binary ps)\<rparr>"
    "wfq_wf (ss_sched s2)" "wfq_items (ss_sched s2) = {#}"
    "duplex_linked sn dup pc (n - frame_cost pc (auth_frame creds)) (n - frame_cost pc g) (nc', acc_new) (ss_noise s2, ss_acc s2)"
    by (rule login_meets [OF meet pc sn se rest, of new_channel i now q])
  have "handle_auth (ce_snow (cn_env env)) (ce_postcard (cn_env env)) script_socket (cn_auth env) (ce_config (cn_env env))
      budget (cn_user s) nc ws2 =
      \<lparr>ar_result = Inr (), ar_states = [WaitingForAuth], ar_user = u2, ar_noise = nc', ar_ws = ([], c2s @ map Binary ps)\<rparr>"
    using m(9) by (simp add: sn pc auth_outcome_result_def)
  from opened_online [OF start sock m(7) m(8) [unfolded sn] this, of t]
  obtain s' where "conn_step env (Opened (Inr (map Inr (s2c @ map Binary qs), [])) budget t) s = s'"
    "cn_phase s' = Running (msg_loop_new (cn_env env) (cn_client s') ([], c2s @ map Binary ps) nc' t)"
    "cn_attempt s' = 0" "cn_user s' = u2"
    "cn_client s' = fold publish [Handshaking, Authenticating, WaitingForAuth, Online] (cn_client s)"
    by auto
  with m show ?thesis
    by (intro exI [of _ c2s] exI [of _ s2c] exI [of _ h] exI [of _ ns] exI [of _ ps] exI [of _ qs] exI [of _ s1]
        exI [of _ s2] exI [of _ s'] exI [of _ nc']) blast
qed

lemma cleared_published:
  fixes c :: "('c, 'e) ws_client"
  assumes "pending_ok c" "c' = pending_clear (fold publish sts c)"
  shows "cl_states c' = cl_states c @ sts" "\<forall>k < length (cl_requests c'). \<exists>r. fst (request_poll k False c') = Some r"
proof -
  have pub: "fold publish sts c = c\<lparr>cl_states := cl_states c @ sts\<rparr>" for sts and c :: "('c, 'e) ws_client"
    by (induction sts arbitrary: c) (simp_all add: publish_def)
  with assms(1) have "pending_ok (fold publish sts c)" by (simp add: pub pending_ok_def)
  then have c': "c' = (fold publish sts c)\<lparr>cl_pending := Map.empty, cl_requests := map (apsnd drop_sender) (cl_requests c)\<rparr>"
    by (simp add: assms(2) pending_clear_eq) (simp add: pub)
  then show "cl_states c' = cl_states c @ sts" by (simp add: pub)
  show "\<forall>k < length (cl_requests c'). \<exists>r. fst (request_poll k False c') = Some r"
  proof (intro allI impI)
    fix k assume "k < length (cl_requests c')"
    then have k: "k < length (cl_requests c)" by (simp add: c')
    obtain rid st where "cl_requests c ! k = (rid, st)" by fastforce
    with k have "cl_requests c' ! k = (rid, drop_sender st)" by (simp add: c')
    then show "\<exists>r. fst (request_poll k False c') = Some r" by (cases st) (simp_all add: request_poll_def)
  qed
qed

section \<open>Properties\<close>

text \<open>
  C2. A client that can reach its server gets online.  With equal protocol names and versions,
  keys the Noise library accepts, and a server application that answers the credentials with a
  reply the client's handler judges a success: the server accepts the connection, its
  application finds exactly the credentials in its inbox, and the client's task ends in the
  message loop with its attempt counter reset, having published \<open>Handshaking\<close>, \<open>Authenticating\<close>,
  \<open>WaitingForAuth\<close> and \<open>Online\<close>, with the two Noise sessions in step.
\<close>

theorem login_completes:
  fixes env :: "('h, 't, (rstr + client_message) list \<times> client_message list, 'c, 'p, 'b, 'u) conn_env"
    and s :: "('h, 't, (rstr + client_message) list \<times> client_message list, 'c, 'e, 'u) conn"
  assumes "can_meet env sb scfg dup n"
    and "pc = ce_postcard (cn_env env)" "sn = ce_snow (cn_env env)" "se = config_env sn pc script_socket scfg"
    and "g = \<lparr>f_id = 1, f_kind = Message, f_data = reply\<rparr>"
    and "frame_fits pc (sc_max_payload_bytes scfg) (auth_frame creds)"
      "frame_fits pc (cc_max_payload_bytes (ce_config (cn_env env))) g"
    and "frame_cost pc (auth_frame creds) \<le> n" "frame_cost pc g \<le> n" "frame_cost pc g \<le> budget"
    and "auth_payload (cn_auth env) (cn_user s) = (Some creds, u1)" "process_auth_response (cn_auth env) u1 reply = (Success, u2)"
    and "cn_phase s = Opening url"
  shows "\<exists>c2s s2c h ns ps qs s1 s2 s' ml.
    accept_ws_session sn sb script_socket new_channel i scfg (map Inr (map native_message c2s), []) =
      (Inr (h, ns), [], map native_message s2c) \<and>
    run_turns (server_handle se) (map (\<lambda>_. WsReady now True) ps)
      (server_session_new se (map (\<lambda>p. Inr (MBinary p)) ps, []) ns now) = (Continue, s1) \<and>
    ss_inbox s1 = [auth_frame creds] \<and>
    server_on_cmd se (SendFrame g q) s1 = (Continue, s2) \<and> snd (ss_ws s2) = map MBinary qs \<and>
    conn_step env (Opened (Inr (map Inr (s2c @ map Binary qs), [])) budget t) s = s' \<and>
    cn_phase s' = Running ml \<and> ml_ws ml = ([], c2s @ map Binary ps) \<and> cn_attempt s' = 0 \<and> cn_user s' = u2 \<and>
    cl_states (cn_client s') = cl_states (cn_client s) @ [Handshaking, Authenticating, WaitingForAuth, Online] \<and>
    duplex_linked sn dup pc (n - frame_cost pc (auth_frame creds)) (n - frame_cost pc g)
      (ml_noise ml, ml_acc ml) (ss_noise s2, ss_acc s2)"
proof -
  from login_online [OF assms, of new_channel i now q t] obtain c2s s2c h ns ps qs s1 s2 s' nc' where m:
    "accept_ws_session sn sb script_socket new_channel i scfg (map Inr (map native_message c2s), []) =
      (Inr (h, ns), [], map native_message s2c)"
    "run_turns (server_handle se) (map (\<lambda>_. WsReady now True) ps)
      (server_session_new se (map (\<lambda>p. Inr (MBinary p)) ps, []) ns now) = (Continue, s1)"
    "ss_inbox s1 = [auth_frame creds]"
    "server_on_cmd se (SendFrame g q) s1 = (Continue, s2)" "snd (ss_ws s2) = map MBinary qs"
    "conn_step env (Opened (Inr (map Inr (s2c @ map Binary qs), [])) budget t) s = s'"
    "cn_phase s' = Running (msg_loop_new (cn_env env) (cn_client s') ([], c2s @ map Binary ps) nc' t)"
    "cn_attempt s' = 0" "cn_user s' = u2"
    "cn_client s' = fold publish [Handshaking, Authenticating, WaitingForAuth, Online] (cn_client s)"
    "duplex_linked sn dup pc (n - frame_cost pc (auth_frame creds)) (n - frame_cost pc g) (nc', acc_new) (ss_noise s2, ss_acc s2)"
    by metis
  from m(10) have "cl_states (cn_client s') = cl_states (cn_client s) @ [Handshaking, Authenticating, WaitingForAuth, Online]"
    by (simp add: publish_def)
  with m show ?thesis
    by (intro exI [of _ c2s] exI [of _ s2c] exI [of _ h] exI [of _ ns] exI [of _ ps] exI [of _ qs] exI [of _ s1]
        exI [of _ s2] exI [of _ s'] exI [of _ "msg_loop_new (cn_env env) (cn_client s') ([], c2s @ map Binary ps) nc' t"])
      (simp add: msg_loop_new_def)
qed

definition trusting_auth :: "unit auth_handler" where
  "trusting_auth = \<lparr>auth_payload = (\<lambda>u. (Some [5], u)), process_auth_response = (\<lambda>u r. (Success, u)),
     on_session_expired = (\<lambda>u. u)\<rparr>"

definition refusing_auth :: "unit auth_handler" where
  "refusing_auth = trusting_auth\<lparr>process_auth_response := (\<lambda>u r. (AuthUnauthorized, u))\<rparr>"

definition sample_login_env :: "unit auth_handler \<Rightarrow>
  (nat, nat, (rstr + client_message) list \<times> client_message list, client_cmd list, unit, unit, unit) conn_env" where
  "sample_login_env auth = sample_conn_env\<lparr>cn_auth := auth\<rparr>"

lemma sample_meet:
  obtains scfg where "can_meet (sample_login_env auth) sample_builder scfg sample_dup 20" "sc_max_payload_bytes scfg = 4194304"
proof -
  let ?cfg = "ce_config (cn_env (sample_login_env auth))"
  have cfg: "cc_protocol_name ?cfg = lit ''CAM''" "cc_protocol_version ?cfg = lit ''1.0''" "cc_noise_server_key ?cfg = None"
    by (simp_all add: sample_login_env_def sample_auth_config_def)
  have valid: "validate_protocol_string (lit ''CAM'') = Some ()" "validate_protocol_string (lit ''1.0'') = Some ()"
    by (simp_all add: validate_protocol_string_iff lit_def protocol_char_def)
  then obtain scfg where "ws_server_config_new (lit ''CAM'') (lit ''1.0'') [7] = Some scfg"
    by (simp add: ws_server_config_new_def)
  then have sc: "sc_protocol_name scfg = lit ''CAM''" "sc_protocol_version scfg = lit ''1.0''"
    "sc_max_payload_bytes scfg = 4194304"
    by (auto simp: ws_server_config_new_def valid)
  have "\<exists>hi hr. noise_client (cn_builder (sample_login_env auth)) None = Inr (\<lparr>ns_state = Some (Handshake hi)\<rparr> :: (nat, nat) noise_session) \<and>
      noise_server sample_builder (sc_noise_private_key scfg) = Inr (\<lparr>ns_state = Some (Handshake hr)\<rparr> :: (nat, nat) noise_session) \<and>
      snow_handshake_ok sample_snow (\<lambda>k a b. sample_dup k k a b) 20 hi hr"
    by (intro exI [of _ 0] conjI) (simp_all add: sample_login_env_def sample_builder_client sample_builder_server
        snow_handshake_ok_def sample_snow_def sample_dup_def)
  then have "can_meet (sample_login_env auth) sample_builder scfg sample_dup 20"
    unfolding can_meet_def Let_def cfg sc
    using sample_dup_ok sample_postcard_ok
    by (simp add: valid_protocol_def valid sample_login_env_def) (simp add: lit_def)
  with sc(3) show thesis by (rule that [rotated])
qed

lemma sample_login_costs:
  "frame_fits sample_postcard 4194304 (auth_frame [5])" "frame_cost sample_postcard (auth_frame [5]) \<le> 1"
  "frame_fits sample_postcard 100 \<lparr>f_id = 1, f_kind = Message, f_data = [6]\<rparr>"
  "frame_cost sample_postcard \<lparr>f_id = 1, f_kind = Message, f_data = [6]\<rparr> \<le> 1"
  by (simp_all add: frame_fits_def frame_cost_def encode_frame_def auth_frame_def)

lemma sample_opening_next_id: "cl_next_id (cn_client sample_opening) = 2"
  by (simp add: sample_opening_def conn_new_def ws_client_new_def set_endpoint_def notify_def list_sender_def
      conn_top_def conn_defs publish_def split: option.splits)

theorem login_completes_witness:
  "\<exists>scfg c2s s2c h ns qs ml.
    accept_ws_session sample_snow sample_builder script_socket (\<lambda>n. n) (0 :: nat) scfg (map Inr (map native_message c2s), []) =
      (Inr (h, ns), [], map native_message s2c) \<and>
    cn_phase (conn_step (sample_login_env trusting_auth) (Opened (Inr (map Inr (s2c @ map Binary qs), [])) 1 7) sample_opening) =
      Running ml"
proof -
  let ?env = "sample_login_env trusting_auth" and ?g = "\<lparr>f_id = 1, f_kind = Message, f_data = [6]\<rparr> :: frame"
  obtain scfg where meet: "can_meet ?env sample_builder scfg sample_dup 20" and max: "sc_max_payload_bytes scfg = 4194304"
    by (rule sample_meet)
  have parts: "sample_postcard = ce_postcard (cn_env ?env)" "sample_snow = ce_snow (cn_env ?env)"
    "cc_max_payload_bytes (ce_config (cn_env ?env)) = 100"
    by (simp_all add: sample_login_env_def sample_auth_config_def)
  note costs = sample_login_costs [folded max] sample_login_costs [folded parts(3)]
  have cost20: "frame_cost sample_postcard (auth_frame [5]) \<le> 20" "frame_cost sample_postcard ?g \<le> 20"
    using sample_login_costs(2,4) by linarith+
  have auth: "auth_payload (cn_auth ?env) (cn_user sample_opening) = (Some [5], ())"
    "process_auth_response (cn_auth ?env) () [6] = (Success, ())"
    by (simp_all add: sample_login_env_def trusting_auth_def)
  obtain url where "cn_phase sample_opening = Opening url" using sample_opening_opening by (auto simp: about_to_open_def)
  from login_completes [OF meet parts(1,2) refl refl costs(1) costs(7) cost20 costs(4) auth this, of "\<lambda>n. n" 0 7 Normal 7]
  show ?thesis by blast
qed

text \<open>
  C4. A client whose credentials are refused stops and tells everyone.  Under the same conditions,
  but with a reply that the client's handler judges a refusal: the server's application saw
  exactly the credentials; the client publishes \<open>Unauthorized\<close> and leaves the server alone, no
  request is left waiting, and no input but a wake-up, a reconnect, a new endpoint or a
  shutdown ever moves it again.
\<close>

theorem login_rejected:
  fixes env :: "('h, 't, (rstr + client_message) list \<times> client_message list, 'c, 'p, 'b, 'u) conn_env"
    and s :: "('h, 't, (rstr + client_message) list \<times> client_message list, 'c, 'e, 'u) conn"
  assumes meet: "can_meet env sb scfg dup n"
    and pc: "pc = ce_postcard (cn_env env)" and sn: "sn = ce_snow (cn_env env)" and se: "se = config_env sn pc script_socket scfg"
    and rest: "g = \<lparr>f_id = 1, f_kind = Message, f_data = reply\<rparr>"
      "frame_fits pc (sc_max_payload_bytes scfg) (auth_frame creds)"
      "frame_fits pc (cc_max_payload_bytes (ce_config (cn_env env))) g"
      "frame_cost pc (auth_frame creds) \<le> n" "frame_cost pc g \<le> n" "frame_cost pc g \<le> budget"
      "auth_payload (cn_auth env) (cn_user s) = (Some creds, u1)"
      "process_auth_response (cn_auth env) u1 reply = (AuthUnauthorized, u2)"
    and start: "cn_phase s = Opening url" and pend: "pending_ok (cn_client s)"
  shows "\<exists>c2s s2c h ns ps qs s1 s2 s'.
    accept_ws_session sn sb script_socket new_channel i scfg (map Inr (map native_message c2s), []) =
      (Inr (h, ns), [], map native_message s2c) \<and>
    run_turns (server_handle se) (map (\<lambda>_. WsReady now True) ps)
      (server_session_new se (map (\<lambda>p. Inr (MBinary p)) ps, []) ns now) = (Continue, s1) \<and>
    ss_inbox s1 = [auth_frame creds] \<and>
    server_on_cmd se (SendFrame g q) s1 = (Continue, s2) \<and> snd (ss_ws s2) = map MBinary qs \<and>
    conn_step env (Opened (Inr (map Inr (s2c @ map Binary qs), [])) budget t) s = s' \<and>
    cn_phase s' = WaitUnauthorized \<and> cn_user s' = u2 \<and>
    cl_states (cn_client s') = cl_states (cn_client s) @
      [Handshaking, Authenticating, WaitingForAuth, connection_state.Unauthorized, connection_state.Unauthorized] \<and>
    (\<forall>k < length (cl_requests (cn_client s')). \<exists>r. fst (request_poll k False (cn_client s')) = Some r) \<and>
    (\<forall>is. (\<forall>i \<in> set is. i \<noteq> CancelFired \<and> i \<noteq> CmdReceived EndpointChanged \<and> i \<noteq> CmdReceived Reconnect \<and>
        i \<noteq> CmdReceived WakeUp) \<longrightarrow> fold (conn_step env) is s' = s')"
proof -
  from meet have sock: "ce_socket (cn_env env) = script_socket" by (simp add: can_meet_def Let_def)
  obtain c2s s2c h ns ps qs s1 s2 ws1 nc ws2 nc' where m:
    "accept_ws_session sn sb script_socket new_channel i scfg (map Inr (map native_message c2s), []) =
      (Inr (h, ns), [], map native_message s2c)"
    "run_turns (server_handle se) (map (\<lambda>_. WsReady now True) ps)
      (server_session_new se (map (\<lambda>p. Inr (MBinary p)) ps, []) ns now) = (Continue, s1)"
    "ss_inbox s1 = [auth_frame creds]"
    "server_on_cmd se (SendFrame g q) s1 = (Continue, s2)" "snd (ss_ws s2) = map MBinary qs"
    "client_version_handshake script_socket (ce_config (cn_env env)) (map Inr (s2c @ map Binary qs), []) = (VersionOk, ws1)"
    "client_noise_handshake sn (cn_builder env) script_socket (ce_config (cn_env env)) ws1 = (Inr nc, ws2)"
    "handle_auth sn pc script_socket (cn_auth env) (ce_config (cn_env env)) budget (cn_user s) nc ws2 =
      \<lparr>ar_result = fst (auth_outcome_result AuthUnauthorized), ar_states = WaitingForAuth # snd (auth_outcome_result AuthUnauthorized),
       ar_user = u2, ar_noise = nc', ar_ws = ([], c2s @ map Binary ps)\<rparr>"
    by (rule login_meets [OF meet pc sn se rest, of new_channel i now q])
  have "handle_auth (ce_snow (cn_env env)) (ce_postcard (cn_env env)) script_socket (cn_auth env) (ce_config (cn_env env))
      budget (cn_user s) nc ws2 =
      \<lparr>ar_result = Inl transport_error.Unauthorized, ar_states = [WaitingForAuth, connection_state.Unauthorized], ar_user = u2,
       ar_noise = nc', ar_ws = ([], c2s @ map Binary ps)\<rparr>"
    using m(8) by (simp add: sn pc auth_outcome_result_def)
  from opened_rejected [OF start sock m(6) m(7) [unfolded sn] this, of t] obtain s' where
    s': "conn_step env (Opened (Inr (map Inr (s2c @ map Binary qs), [])) budget t) s = s'" "cn_phase s' = WaitUnauthorized" "cn_user s' = u2"
      "cn_client s' = pending_clear (fold publish (Handshaking # Authenticating #
         [WaitingForAuth, connection_state.Unauthorized] @ [connection_state.Unauthorized]) (cn_client s))" by auto
  from cleared_published [OF pend s'(4)] have
    "cl_states (cn_client s') = cl_states (cn_client s) @
      [Handshaking, Authenticating, WaitingForAuth, connection_state.Unauthorized, connection_state.Unauthorized]"
    "\<forall>k < length (cl_requests (cn_client s')). \<exists>r. fst (request_poll k False (cn_client s')) = Some r" by simp_all
  moreover have "\<forall>is. (\<forall>i \<in> set is. i \<noteq> CancelFired \<and> i \<noteq> CmdReceived EndpointChanged \<and> i \<noteq> CmdReceived Reconnect \<and>
        i \<noteq> CmdReceived WakeUp) \<longrightarrow> fold (conn_step env) is s' = s'"
    using waits_are_stable [of _ s' env] s'(2) by auto
  ultimately show ?thesis using m(1-5) s'(1-3)
    by (intro exI [of _ c2s] exI [of _ s2c] exI [of _ h] exI [of _ ns] exI [of _ ps] exI [of _ qs] exI [of _ s1]
        exI [of _ s2] exI [of _ s']) blast
qed

theorem login_rejected_witness:
  "\<exists>s2c qs. cn_phase (conn_step (sample_login_env refusing_auth) (Opened (Inr (map Inr (s2c @ map Binary qs), [])) 1 7) sample_opening) =
      WaitUnauthorized"
proof -
  let ?env = "sample_login_env refusing_auth" and ?g = "\<lparr>f_id = 1, f_kind = Message, f_data = [6]\<rparr> :: frame"
  obtain scfg where meet: "can_meet ?env sample_builder scfg sample_dup 20" and max: "sc_max_payload_bytes scfg = 4194304"
    by (rule sample_meet)
  have parts: "sample_postcard = ce_postcard (cn_env ?env)" "sample_snow = ce_snow (cn_env ?env)"
    "cc_max_payload_bytes (ce_config (cn_env ?env)) = 100"
    by (simp_all add: sample_login_env_def sample_auth_config_def)
  note costs = sample_login_costs [folded max] sample_login_costs [folded parts(3)]
  have cost20: "frame_cost sample_postcard (auth_frame [5]) \<le> 20" "frame_cost sample_postcard ?g \<le> 20"
    using sample_login_costs(2,4) by linarith+
  have auth: "auth_payload (cn_auth ?env) (cn_user sample_opening) = (Some [5], ())"
    "process_auth_response (cn_auth ?env) () [6] = (AuthUnauthorized, ())"
    by (simp_all add: sample_login_env_def refusing_auth_def trusting_auth_def)
  have pend: "pending_ok (cn_client sample_opening)" 
    using conn_reach_ok [OF sample_opening_reach] by (simp add: conn_ok_def showing_def)
  obtain url where "cn_phase sample_opening = Opening url" using sample_opening_opening by (auto simp: about_to_open_def)
  from login_rejected [OF meet parts(1,2) refl refl costs(1) costs(7) cost20 costs(4) auth this pend, of "\<lambda>n. n" "0 :: nat" 7 Normal 7]
  show ?thesis by blast
qed

end
