(* ===== verification/LoginCases.thy ===== *)
theory LoginCases
  imports Login
begin

text \<open>
  The other ways a connection attempt of \<open>src/ws/client/connection_loop.rs\<close> ends when it meets
  \<open>accept_ws_session\<close> of \<open>src/ws/server/mod.rs\<close>: without credentials, with another protocol
  version, and with a failing Noise handshake.
\<close>

section \<open>The server's verdict on a hello\<close>

text \<open>On validated strings the trim loop strips the name once, and the server reports the client's version.\<close>

lemma server_refusal:
  assumes "\<forall>c \<in> set (sc_protocol_name scfg @ sc_protocol_version scfg @ cc_protocol_name ccfg @ cc_protocol_version ccfg).
      protocol_char c"
    and "sc_protocol_name scfg \<noteq> cc_protocol_name ccfg \<or> sc_protocol_version scfg \<noteq> cc_protocol_version ccfg"
  shows "accept_ws_session sn sb script_socket new_channel i scfg ([Inr (MText (client_hello ccfg))], []) =
    (Inl (if sc_protocol_name scfg = cc_protocol_name ccfg
          then transport_error.VersionMismatch (cc_protocol_version ccfg) (sc_protocol_version scfg)
          else ProtocolHandshakeFailed), [], [MText (rejection scfg)])"
proof -
  let ?name = "sc_protocol_name scfg" and ?version = "cc_protocol_version ccfg"
  have sp: "lit '' '' = [32]" by (simp add: lit_def)
  have ns: "32 \<notin> set ?name" "32 \<notin> set (cc_protocol_name ccfg)" "32 \<notin> set ?version"
    using assms(1) protocol_char_not_space by auto
  have no: "\<not> hello_accepted scfg (client_hello ccfg)"
    using hello_accepted_iff [OF assms(1)] assms(2) unfolding client_hello_def by metis
  have hello: "client_hello ccfg = cc_protocol_name ccfg @ [32] @ ?version" unfolding client_hello_def sp by simp
  have start: "starts_with (client_hello ccfg) (?name @ lit '' '') \<longleftrightarrow> ?name = cc_protocol_name ccfg"
    unfolding hello sp starts_with_iff by (auto dest: split_at_space [OF _ ns(2,1)])
  have "\<not> starts_with ?version (?name @ [32])" using ns(3) by (auto simp: starts_with_iff)
  then have once: "trim_start_matches (?name @ [32] @ ?version) (?name @ [32]) = ?version"
    using trim_start_matches_once [of "?name @ [32]" ?version] by simp
  have trimmed: "trim ?version = ?version" using assms(1) protocol_char_not_whitespace by (intro trim_none) auto
  show ?thesis
  proof (cases "?name = cc_protocol_name ccfg")
    case True
    with hello have "client_hello ccfg = ?name @ [32] @ ?version" by simp
    then have "trim (trim_start_matches (client_hello ccfg) (?name @ lit '' '')) = ?version" by (simp only: sp once trimmed)
    with True no start show ?thesis
      unfolding accept_ws_session_def server_verdict by (simp del: trim_start_matches.simps)
  next
    case False
    with no start show ?thesis
      unfolding accept_ws_session_def server_verdict by (simp del: trim_start_matches.simps)
  qed
qed

section \<open>The client's side\<close>

lemma opened_mismatch:
  assumes "cn_phase s = Opening url" "ce_socket (cn_env env) = script_socket"
    and "fst (client_version_handshake script_socket (ce_config (cn_env env)) ws) = VersionRejected st"
  shows "\<exists>s'. conn_step env (Opened (Inr ws) budget t) s = s' \<and> cn_phase s' = WaitMismatch \<and> cn_user s' = cn_user s \<and>
    cn_attempt s' = cn_attempt s \<and> cn_client s' = pending_clear (fold publish [Handshaking, st] (cn_client s))"
  using assms by (cases "client_version_handshake script_socket (ce_config (cn_env env)) ws")
    (simp add: conn_opened_def conn_defs)

text \<open>
  A Noise handshake that fails only counts as an attempt: nothing is published after
  \<open>Authenticating\<close>, which the client then shows while it backs off.
\<close>

lemma noise_failure_is_silent:
  assumes "cn_phase s = Opening url"
    and "client_version_handshake (ce_socket (cn_env env)) (ce_config (cn_env env)) ws = (VersionOk, ws1)"
    and "fst (client_noise_handshake (ce_snow (cn_env env)) (cn_builder env) (ce_socket (cn_env env)) (ce_config (cn_env env)) ws1) =
      Inl e"
  shows "conn_step env (Opened (Inr ws) budget t) s =
    s\<lparr>cn_client := fold publish [Handshaking, Authenticating] (cn_client s), cn_attempt := cn_attempt s + 1, cn_phase := Top\<rparr>"
  using assms by (cases "client_noise_handshake (ce_snow (cn_env env)) (cn_builder env) (ce_socket (cn_env env))
      (ce_config (cn_env env)) ws1") (simp add: conn_opened_def conn_secure_def conn_defs)

section \<open>Without credentials\<close>

text \<open>
  A client without an authentication handler, or whose handler has no credentials, is online
  after the handshakes alone, and talks like any other: what each side wrote so far the other
  one has read, and neither loop ends.
\<close>

theorem anonymous_contact:
  fixes env :: "('h, 't, (rstr + client_message) list \<times> client_message list, 'c, 'p, 'b, 'u) conn_env"
    and s :: "('h, 't, (rstr + client_message) list \<times> client_message list, 'c, 'e, 'u) conn"
  assumes meet: "can_meet env sb scfg dup n"
    and parts: "pc = ce_postcard (cn_env env)" "sn = ce_snow (cn_env env)" "se = config_env sn pc script_socket scfg"
      "first = cl_next_id (cn_client s)"
    and auth: "auth_payload (cn_auth env) (cn_user s) = (None, u1)"
    and start: "cn_phase s = Opening url" "pending_ok (cn_client s)"
    and talk: "\<forall>f \<in> set (asked first xs). (f_kind f = Message \<longrightarrow> 0 < f_id f) \<and> frame_fits pc (sc_max_payload_bytes scfg) f"
      "\<forall>f \<in> set (answered first xs). frame_fits pc (cc_max_payload_bytes (ce_config (cn_env env))) f"
    and nonces: "sum_list (map (frame_cost pc) (asked first xs)) \<le> n" "sum_list (map (frame_cost pc) (answered first xs)) \<le> n"
  shows "\<exists>c2s s2c h ns s' ml c' s3.
    accept_ws_session sn sb script_socket new_channel i scfg (map Inr (map native_message c2s), []) =
      (Inr (h, ns), [], map native_message s2c) \<and>
    conn_step env (Opened (Inr (map Inr s2c, [])) budget t) s = s' \<and> cn_phase s' = Running ml \<and>
    cl_states (cn_client s') = cl_states (cn_client s) @ [Handshaking, Authenticating, Online] \<and>
    ml_ws ml = ([], c2s) \<and>
    conversation (cn_env env) se now xs (ml\<lparr>ml_ws := ([], [])\<rparr>, server_session_new se ([], []) ns now) =
      Some (map (Some \<circ> Inr) (replies xs), c', s3) \<and>
    ss_inbox s3 = asked first xs \<and>
    cl_events (ml_client c') = cl_events (cn_client s) @ handled (cl_event_handler (cn_client s)) (pushed xs)"
proof -
  from meet have sock: "ce_socket (cn_env env) = script_socket" by (simp add: can_meet_def Let_def)
  from can_meet_handshakes [OF meet, of new_channel i] parts(1,2) obtain hello m1 m2 m3 ti tr where hs:
    "\<And>rest. client_version_handshake script_socket (ce_config (cn_env env)) (Inr (Text (lit ''PROTOCOL_ACCEPTED'')) # rest, []) =
       (VersionOk, rest, [Text hello])"
    "\<And>rest. client_noise_handshake sn (cn_builder env) script_socket (ce_config (cn_env env)) (Inr (Binary m2) # rest, [Text hello]) =
       (Inr \<lparr>ns_state = Some (Transport ti)\<rparr>, rest, [Text hello, Binary m1, Binary m3])"
    "accept_ws_session sn sb script_socket new_channel i scfg ([Inr (MText hello), Inr (MBinary m1), Inr (MBinary m3)], []) =
       (Inr (\<lparr>sh_id = i, sh_cmd_tx = new_channel (sc_buffer_size scfg), sh_state = Online\<rparr>,
             \<lparr>ns_state = Some (Transport tr)\<rparr>), [], [MText (lit ''PROTOCOL_ACCEPTED''), MBinary m2])"
    "duplex_linked sn dup pc n n (\<lparr>ns_state = Some (Transport ti)\<rparr>, acc_new) (\<lparr>ns_state = Some (Transport tr)\<rparr>, acc_new)"
    by metis
  let ?nc = "\<lparr>ns_state = Some (Transport ti)\<rparr> :: ('h, 't) noise_session"
  let ?ns = "\<lparr>ns_state = Some (Transport tr)\<rparr> :: ('h, 't) noise_session"
  let ?ws = "([], [Text hello, Binary m1, Binary m3])" and ?still = "server_session_new se ([], []) ?ns now"
  have "handle_auth (ce_snow (cn_env env)) (ce_postcard (cn_env env)) script_socket (cn_auth env) (ce_config (cn_env env))
      budget (cn_user s) ?nc ?ws = \<lparr>ar_result = Inr (), ar_states = [], ar_user = u1, ar_noise = ?nc, ar_ws = ?ws\<rparr>"
    by (simp add: handle_auth_def auth)
  from opened_online [OF start(1) sock hs(1) hs(2) [unfolded parts(2)] this, of t] obtain s' where s':
    "conn_step env (Opened (Inr (map Inr [Text (lit ''PROTOCOL_ACCEPTED''), Binary m2], [])) budget t) s = s'"
    "cn_phase s' = Running (msg_loop_new (cn_env env) (cn_client s') ?ws ?nc t)"
    "cn_client s' = fold publish [Handshaking, Authenticating, Online] (cn_client s)" by auto
  let ?ml = "msg_loop_new (cn_env env) (cn_client s') ?ws ?nc t"
  have se: "se_socket se = script_socket" "se_snow se = ce_snow (cn_env env)" "se_postcard se = ce_postcard (cn_env env)"
    "se_max_bytes se = sc_max_payload_bytes scfg"
    by (simp_all add: parts config_env_def)
  let ?quiet = "?ml\<lparr>ml_ws := ([], [])\<rparr>"
  have client: "first = cl_next_id (ml_client ?quiet)" "cl_events (ml_client ?quiet) = cl_events (cn_client s)"
    "cl_event_handler (ml_client ?quiet) = cl_event_handler (cn_client s)"
    by (simp_all add: s'(3) publish_def msg_loop_new_def parts(4))
  have "in_step (cn_env env) dup n n ?quiet ?still"
    using hs(4) start(2) by (simp add: in_step_def msg_loop_new_def server_session_new_def s'(3) publish_def pending_ok_def parts(1,2))
  from conversation_ok [OF sock se(1-3) this client(1), unfolded client(2,3) se(4) parts(1) [symmetric], OF talk nonces, of now]
  obtain c' s3 where "conversation (cn_env env) se now xs (?quiet, ?still) = Some (map (Some \<circ> Inr) (replies xs), c', s3)"
    "ss_inbox s3 = asked first xs"
    "cl_events (ml_client c') = cl_events (cn_client s) @ handled (cl_event_handler (cn_client s)) (pushed xs)"
    by (auto simp: server_session_new_def)
  moreover have "ml_ws ?ml = ?ws" by (simp add: msg_loop_new_def)
  moreover have "cl_states (cn_client s') = cl_states (cn_client s) @ [Handshaking, Authenticating, Online]"
    by (simp add: s'(3) publish_def)
  ultimately show ?thesis using hs(3) s'(1,2)
    by (intro exI [of _ "[Text hello, Binary m1, Binary m3]"] exI [of _ "[Text (lit ''PROTOCOL_ACCEPTED''), Binary m2]"]
        exI [of _ "\<lparr>sh_id = i, sh_cmd_tx = new_channel (sc_buffer_size scfg), sh_state = Online\<rparr>"] exI [of _ ?ns]
        exI [of _ s'] exI [of _ ?ml] exI [of _ c'] exI [of _ s3] conjI) simp_all
qed

section \<open>Another protocol\<close>

text \<open>
  C5. A client of another protocol or version stops, and both sides know why.  The server answers
  its hello with one rejection and fails, with the client's version if only the versions
  differ; the client, reading that line, publishes \<open>VersionMismatch\<close> with both versions, leaves
  no request waiting, and no input but a reconnect, a new endpoint or a shutdown ever moves
  it again: a wake-up does not.  The server's version must not contain the word the client
  looks for.
\<close>

theorem mismatch_stops_client:
  assumes config: "valid_protocol (cc_protocol_name cfg) (cc_protocol_version cfg)"
      "valid_protocol (sc_protocol_name scfg) (sc_protocol_version scfg)"
      "\<forall>c \<in> set (cc_protocol_name cfg @ cc_protocol_version cfg @ sc_protocol_name scfg @ sc_protocol_version scfg). c < 0x110000"
      "\<not> contains (sc_protocol_version scfg) (lit ''PROTOCOL_ACCEPTED'')"
    and other: "sc_protocol_name scfg \<noteq> cc_protocol_name cfg \<or> sc_protocol_version scfg \<noteq> cc_protocol_version cfg"
    and env: "cfg = ce_config (cn_env env)" "ce_socket (cn_env env) = script_socket"
    and start: "cn_phase s = Opening url" "pending_ok (cn_client s)"
  shows "\<exists>line s'.
    accept_ws_session sn sb script_socket new_channel i scfg ([Inr (MText (client_hello cfg))], []) =
      (Inl (if sc_protocol_name scfg = cc_protocol_name cfg
            then transport_error.VersionMismatch (cc_protocol_version cfg) (sc_protocol_version scfg)
            else ProtocolHandshakeFailed), [], [MText line]) \<and>
    conn_step env (Opened (Inr ([Inr (Text line)], [])) budget t) s = s' \<and>
    cl_states (cn_client s') = cl_states (cn_client s) @
      [Handshaking, VersionMismatch (cc_protocol_version cfg) (sc_protocol_version scfg)] \<and>
    (\<forall>k < length (cl_requests (cn_client s')). \<exists>r. fst (request_poll k False (cn_client s')) = Some r) \<and>
    (\<forall>is. (\<forall>i \<in> set is. i \<noteq> CancelFired \<and> i \<noteq> CmdReceived EndpointChanged \<and> i \<noteq> CmdReceived Reconnect) \<longrightarrow>
      fold (conn_step env) is s' = s') \<and>
    cn_phase (conn_step env (CmdReceived Reconnect) s') = Top"
proof -
  from config(1-3) have chars: "\<forall>c \<in> set (sc_protocol_name scfg @ sc_protocol_version scfg @ cc_protocol_name cfg @
      cc_protocol_version cfg). protocol_char c"
    using validate_protocol_string_iff [of "cc_protocol_name cfg"] validate_protocol_string_iff [of "cc_protocol_version cfg"]
      validate_protocol_string_iff [of "sc_protocol_name scfg"] validate_protocol_string_iff [of "sc_protocol_version scfg"]
    by (auto simp: valid_protocol_def)
  have "trim (sc_protocol_version scfg) = sc_protocol_version scfg"
    using chars protocol_char_not_whitespace by (intro trim_none) auto
  from rejection_verdict [OF config(4) this, of cfg "[]" "[]", unfolded env(1)]
  obtain s' where s': "conn_step env (Opened (Inr ([Inr (Text (rejection scfg))], [])) budget t) s = s'" "cn_phase s' = WaitMismatch"
    "cn_client s' = pending_clear (fold publish
       [Handshaking, VersionMismatch (cc_protocol_version cfg) (sc_protocol_version scfg)] (cn_client s))"
    using opened_mismatch [OF start(1) env(2), of "([Inr (Text (rejection scfg))], [])" _ budget t] by (auto simp: env(1))
  from cleared_published [OF start(2) s'(3)] have
    "cl_states (cn_client s') = cl_states (cn_client s) @
      [Handshaking, VersionMismatch (cc_protocol_version cfg) (sc_protocol_version scfg)]"
    "\<forall>k < length (cl_requests (cn_client s')). \<exists>r. fst (request_poll k False (cn_client s')) = Some r" by simp_all
  moreover have "\<forall>is. (\<forall>i \<in> set is. i \<noteq> CancelFired \<and> i \<noteq> CmdReceived EndpointChanged \<and> i \<noteq> CmdReceived Reconnect) \<longrightarrow>
      fold (conn_step env) is s' = s'"
    using waits_are_stable [of _ s' env] s'(2) by auto
  moreover have "cn_phase (conn_step env (CmdReceived Reconnect) s') = Top" using s'(2) by (simp add: wait_defs conn_defs)
  moreover have "accept_ws_session sn sb script_socket new_channel i scfg ([Inr (MText (client_hello cfg))], []) =
      (Inl (if sc_protocol_name scfg = cc_protocol_name cfg
            then transport_error.VersionMismatch (cc_protocol_version cfg) (sc_protocol_version scfg)
            else ProtocolHandshakeFailed), [], [MText (rejection scfg)])"
    by (rule server_refusal [OF chars other])
  ultimately show ?thesis using s'(1) by (intro exI [of _ "rejection scfg"] exI [of _ s'] conjI)
qed

theorem mismatch_stops_client_witness:
  "\<exists>line s'. conn_step (sample_login_env no_auth) (Opened (Inr ([Inr (Text line)], [])) 0 7) sample_opening = s' \<and>
     cl_states (cn_client s') = cl_states (cn_client sample_opening) @
       [Handshaking, VersionMismatch (lit ''1.0'') (lit ''2.0'')] \<and>
     cn_phase (conn_step (sample_login_env no_auth) (CmdReceived Reconnect) s') = Top"
proof -
  let ?env = "sample_login_env no_auth" and ?scfg = "sample_server_config\<lparr>sc_protocol_version := lit ''2.0''\<rparr>"
  let ?cfg = "ce_config (cn_env ?env)"
  have cfg: "cc_protocol_name ?cfg = lit ''CAM''" "cc_protocol_version ?cfg = lit ''1.0''" "ce_socket (cn_env ?env) = script_socket"
    by (simp_all add: sample_login_env_def sample_auth_config_def)
  have valid: "validate_protocol_string (lit ''CAM'') = Some ()" "validate_protocol_string (lit ''1.0'') = Some ()"
    "validate_protocol_string (lit ''2.0'') = Some ()"
    by (simp_all add: validate_protocol_string_iff lit_def protocol_char_def)
  have no: "\<not> contains (sc_protocol_version ?scfg) (lit ''PROTOCOL_ACCEPTED'')"
    by (simp add: contains.simps starts_with_def lit_def)
  have other: "sc_protocol_version ?scfg \<noteq> cc_protocol_version ?cfg" by (simp add: cfg(2)) (simp add: lit_def)
  have ok: "valid_protocol (cc_protocol_name ?cfg) (cc_protocol_version ?cfg)"
    "valid_protocol (sc_protocol_name ?scfg) (sc_protocol_version ?scfg)"
    unfolding valid_protocol_def cfg by (simp_all add: valid sample_server_config_def)
  have small: "\<forall>c \<in> set (cc_protocol_name ?cfg @ cc_protocol_version ?cfg @ sc_protocol_name ?scfg @ sc_protocol_version ?scfg).
      c < 0x110000"
    unfolding cfg by (simp add: sample_server_config_def) (simp add: lit_def)
  have pend: "pending_ok (cn_client sample_opening)"
    using conn_reach_ok [OF sample_opening_reach] by (simp add: conn_ok_def showing_def)
  obtain url where "cn_phase sample_opening = Opening url" using sample_opening_opening by (auto simp: about_to_open_def)
  from mismatch_stops_client [OF ok small no disjI2 [OF other] refl cfg(3) this pend, of sample_snow sample_builder "\<lambda>n. n" "0 :: nat" 0 7]
  obtain line s' where "conn_step ?env (Opened (Inr ([Inr (Text line)], [])) 0 7) sample_opening = s'"
    "cl_states (cn_client s') = cl_states (cn_client sample_opening) @
       [Handshaking, VersionMismatch (cc_protocol_version ?cfg) (sc_protocol_version ?scfg)]"
    "cn_phase (conn_step ?env (CmdReceived Reconnect) s') = Top" by blast
  moreover have "sc_protocol_version ?scfg = lit ''2.0''" by simp
  ultimately show ?thesis unfolding cfg by metis
qed

end
