(* ===== verification/Sse.thy ===== *)
theory Sse
  imports Text Errors
begin

text \<open>
  Server-sent events: the client's parser and its reconnect loop (\<open>src/http/client.rs\<close>), and
  the server's emitters (\<open>src/http/sse.rs\<close>).

  Parameters: the outcome of the HTTP request and of each read of its body, axum's \<open>Event\<close>
  builder (\<open>None\<close> where its documentation says it panics), the unbounded channel of an
  emitter, and \<open>serde_json\<close>.
\<close>

section \<open>UTF-8, lossily\<close>

text \<open>
  \<open>String::from_utf8_lossy\<close>: every maximal part that is not well-formed becomes one U+FFFD.
  \<open>second_ok\<close> says which second bytes may follow a lead byte.
\<close>

definition cont :: "byte \<Rightarrow> bool" where
  "cont b \<longleftrightarrow> 0x80 \<le> unat b \<and> unat b \<le> 0xBF"

definition second_ok :: "byte \<Rightarrow> byte \<Rightarrow> bool" where
  "second_ok a b \<longleftrightarrow>
     (let n = unat a; m = unat b in
      if n = 0xE0 then 0xA0 \<le> m \<and> m \<le> 0xBF
      else if n = 0xED then 0x80 \<le> m \<and> m \<le> 0x9F
      else if n = 0xF0 then 0x90 \<le> m \<and> m \<le> 0xBF
      else if n = 0xF4 then 0x80 \<le> m \<and> m \<le> 0x8F
      else cont b)"

text \<open>The number of bytes of a character from its lead byte, 0 for a byte that leads none.\<close>

definition utf8_width :: "byte \<Rightarrow> nat" where
  "utf8_width b =
     (let n = unat b in
      if n < 0x80 then 1
      else if 0xC2 \<le> n \<and> n \<le> 0xDF then 2
      else if 0xE0 \<le> n \<and> n \<le> 0xEF then 3
      else if 0xF0 \<le> n \<and> n \<le> 0xF4 then 4
      else 0)"

text \<open>The first character and the rest.\<close>

definition utf8_step :: "byte \<Rightarrow> byte list \<Rightarrow> nat \<times> byte list" where
  "utf8_step a bs =
     (case utf8_width a of
        0 \<Rightarrow> (0xFFFD, bs)
      | Suc 0 \<Rightarrow> (unat a, bs)
      | Suc (Suc w) \<Rightarrow>
          (case bs of
             b # cs \<Rightarrow>
               if \<not> second_ok a b then (0xFFFD, bs)
               else if w = 0 then ((unat a - 0xC0) * 64 + (unat b - 0x80), cs)
               else
                 (case cs of
                    c # ds \<Rightarrow>
                      if \<not> cont c then (0xFFFD, cs)
                      else if w = 1 then
                        ((unat a - 0xE0) * 4096 + (unat b - 0x80) * 64 + (unat c - 0x80), ds)
                      else
                        (case ds of
                           d # es \<Rightarrow>
                             if \<not> cont d then (0xFFFD, ds)
                             else ((unat a - 0xF0) * 262144 + (unat b - 0x80) * 4096 + (unat c - 0x80) * 64
                                    + (unat d - 0x80), es)
                         | [] \<Rightarrow> (0xFFFD, []))
                  | [] \<Rightarrow> (0xFFFD, []))
           | [] \<Rightarrow> (0xFFFD, [])))"

lemma utf8_step_shrinks: "length (snd (utf8_step a bs)) \<le> length bs"
  by (auto simp: utf8_step_def split: nat.splits list.splits)

function from_utf8_lossy :: "byte list \<Rightarrow> rstr" where
  "from_utf8_lossy [] = []"
| "from_utf8_lossy (a # bs) = fst (utf8_step a bs) # from_utf8_lossy (snd (utf8_step a bs))"
  by pat_completeness auto
termination
  by (relation "measure length") (simp_all add: utf8_step_shrinks le_imp_less_Suc)

section \<open>The parser\<close>

record sse_state =
  event_type :: rstr
  data_lines :: "rstr list"
  leftover :: rstr
  events :: "(rstr \<times> rstr) list"

text \<open>The locals of \<open>connect_sse\<close>, with the calls of the handler recorded.\<close>

definition sse_new :: sse_state where
  "sse_new = \<lparr>event_type = lit ''message'', data_lines = [], leftover = [], events = []\<rparr>"

fun join_lines :: "rstr list \<Rightarrow> rstr" where
  "join_lines [] = []"
| "join_lines [l] = l"
| "join_lines (l # ls) = l @ 10 # join_lines ls"

text \<open>A complete line, without its terminator.\<close>

definition sse_line :: "rstr \<Rightarrow> sse_state \<Rightarrow> sse_state" where
  "sse_line line s =
     (if line = [] then
        if data_lines s \<noteq> [] then
          s\<lparr>events := events s @ [(event_type s, join_lines (data_lines s))], data_lines := [],
            event_type := lit ''message''\<rparr>
        else s
      else case strip_prefix (lit ''event:'') line of
        Some value \<Rightarrow> s\<lparr>event_type := trim value\<rparr>
      | None \<Rightarrow>
          (case strip_prefix (lit ''data:'') line of
             Some value \<Rightarrow> s\<lparr>data_lines := data_lines s @ [trim value]\<rparr>
           | None \<Rightarrow> s))"

text \<open>\<open>line.trim_end_matches('\n').trim_end_matches('\r')\<close>.\<close>

definition chomp :: "rstr \<Rightarrow> rstr" where
  "chomp line = trim_end_while (\<lambda>c. c = 13) (trim_end_while (\<lambda>c. c = 10) line)"

lemma dropWhile_shorter: "10 \<in> set buf \<Longrightarrow> length (tl (dropWhile (\<lambda>c. c \<noteq> 10) buf)) < length (buf :: rstr)"
  using length_dropWhile_le [of "\<lambda>c. c \<noteq> 10" buf] by (cases buf) (auto simp: dropWhile_eq_Nil_conv less_Suc_eq_le)

text \<open>The inner loop: take lines off \<open>leftover\<close> while there is a line feed in it.\<close>

function sse_lines :: "rstr \<Rightarrow> sse_state \<Rightarrow> sse_state" where
  "sse_lines buf s =
     (if 10 \<in> set buf then
        let line = takeWhile (\<lambda>c. c \<noteq> 10) buf @ [10]; rest = tl (dropWhile (\<lambda>c. c \<noteq> 10) buf) in
        sse_lines rest (sse_line (chomp line) s)
      else s\<lparr>leftover := buf\<rparr>)"
  by pat_completeness auto

termination
  by (relation "measure (\<lambda>(buf, s). length buf)") (simp_all add: dropWhile_shorter del: length_tl)

declare sse_lines.simps [simp del]

definition sse_text :: "rstr \<Rightarrow> sse_state \<Rightarrow> sse_state" where
  "sse_text text s = sse_lines (leftover s @ text) s"

definition sse_chunk :: "byte list \<Rightarrow> sse_state \<Rightarrow> sse_state" where
  "sse_chunk chunk s = sse_text (from_utf8_lossy chunk) s"

text \<open>The outer loop over what the body stream yields.\<close>

fun sse_stream :: "(rstr + byte list) list \<Rightarrow> sse_state \<Rightarrow> (transport_error + unit) \<times> sse_state" where
  "sse_stream [] s = (Inr (), s)"
| "sse_stream (Inl e # cs) s = (Inl (HttpError e), s)"
| "sse_stream (Inr chunk # cs) s = sse_stream cs (sse_chunk chunk s)"

text \<open>The status of the response and how it prints.\<close>

definition is_success :: "nat \<Rightarrow> bool" where
  "is_success status \<longleftrightarrow> 200 \<le> status \<and> status \<le> 299"

definition connect_sse :: "rstr + nat \<times> rstr \<times> (rstr + byte list) list \<Rightarrow> (transport_error + unit) \<times> sse_state" where
  "connect_sse response =
     (case response of
        Inl e \<Rightarrow> (Inl (HttpError e), sse_new)
      | Inr (status, status_text, body) \<Rightarrow>
          if \<not> is_success status then (Inl (HttpError (lit ''SSE endpoint returned HTTP '' @ status_text)), sse_new)
          else sse_stream body sse_new)"

section \<open>The reconnect loop\<close>

datatype sse_phase = SseConnecting | SsePausing | SseStopped

text \<open>
  \<open>SseDone\<close> is the end of \<open>connect_sse\<close>, whose result only goes to the log, with what
  \<open>is_cancelled\<close> reads then.
\<close>

datatype sse_input = SseCancelled | SseDone bool | SseTimer

fun sse_loop_step :: "sse_input \<Rightarrow> sse_phase \<Rightarrow> sse_phase" where
  "sse_loop_step SseCancelled p = SseStopped"
| "sse_loop_step (SseDone cancelled) SseConnecting = (if cancelled then SseStopped else SsePausing)"
| "sse_loop_step SseTimer SsePausing = SseConnecting"
| "sse_loop_step i p = p"

section \<open>Emitters\<close>

record ('c, 'ev) sse_sender =
  us_send :: "'c \<Rightarrow> 'ev \<Rightarrow> bool \<times> 'c"
  us_is_closed :: "'c \<Rightarrow> bool"

text \<open>\<open>None\<close> is a panic of the event builder.\<close>

definition emitter_send :: "('c, 'ev) sse_sender \<Rightarrow> (rstr \<Rightarrow> rstr \<Rightarrow> 'ev option) \<Rightarrow> 'c \<Rightarrow> rstr \<Rightarrow> rstr \<Rightarrow>
    ((transport_error + unit) \<times> 'c) option" where
  "emitter_send us build tx ev data =
     (case build ev data of
        None \<Rightarrow> None
      | Some event \<Rightarrow>
          (case us_send us tx event of
             (ok, tx1) \<Rightarrow> Some (if ok then Inr () else Inl SseStreamClosed, tx1)))"

definition emitter_send_json :: "('c, 'ev) sse_sender \<Rightarrow> (rstr \<Rightarrow> rstr \<Rightarrow> 'ev option) \<Rightarrow> ('d \<Rightarrow> rstr + rstr) \<Rightarrow>
    'c \<Rightarrow> rstr \<Rightarrow> 'd \<Rightarrow> ((transport_error + unit) \<times> 'c) option" where
  "emitter_send_json us build to_json tx ev data =
     (case map_err EncodeError (to_json data) of
        Inl e \<Rightarrow> Some (Inl e, tx)
      | Inr json \<Rightarrow> emitter_send us build tx ev json)"

definition emitter_is_alive :: "('c, 'ev) sse_sender \<Rightarrow> 'c \<Rightarrow> bool" where
  "emitter_is_alive us tx = (\<not> us_is_closed us tx)"

text \<open>\<open>retain\<close> visits the emitters in order and keeps those for which the closure is true.\<close>

fun broadcast_sse_json :: "('c, 'ev) sse_sender \<Rightarrow> (rstr \<Rightarrow> rstr \<Rightarrow> 'ev option) \<Rightarrow> ('d \<Rightarrow> rstr + rstr) \<Rightarrow>
    'c list \<Rightarrow> rstr \<Rightarrow> 'd \<Rightarrow> 'c list option" where
  "broadcast_sse_json us build to_json [] ev data = Some []"
| "broadcast_sse_json us build to_json (tx # txs) ev data =
     (if \<not> emitter_is_alive us tx then broadcast_sse_json us build to_json txs ev data
      else
        (case emitter_send_json us build to_json tx ev data of
           None \<Rightarrow> None
         | Some (r, tx1) \<Rightarrow>
             map_option (\<lambda>rest. if is_ok r then tx1 # rest else rest)
               (broadcast_sse_json us build to_json txs ev data)))"

section \<open>Decoding what was encoded\<close>

definition scalar :: "nat \<Rightarrow> bool" where
  "scalar c \<longleftrightarrow> c < 0x110000 \<and> \<not> (0xD800 \<le> c \<and> c \<le> 0xDFFF)"

lemma unat_byte: "n < 256 \<Longrightarrow> unat (of_nat n :: byte) = n"
  by (simp add: unat_of_nat take_bit_nat_eq_self)

lemma utf8_step_char:
  assumes "scalar c"
  shows "utf8_char c \<noteq> [] \<and> utf8_step (hd (utf8_char c)) (tl (utf8_char c) @ bs) = (c, bs)"
proof -
  consider "c < 0x80" | "0x80 \<le> c" "c < 0x800" | "0x800 \<le> c" "c < 0x10000" | "0x10000 \<le> c" "c < 0x110000"
    using assms by (force simp: scalar_def)
  then show ?thesis
  proof cases
    case 1
    then show ?thesis by (simp add: utf8_char_def utf8_step_def utf8_width_def unat_byte)
  next
    case 2
    then have u: "unat (of_nat (0xC0 + c div 64) :: byte) = 0xC0 + c div 64"
      "unat (of_nat (0x80 + c mod 64) :: byte) = 0x80 + c mod 64"
      by (intro unat_byte; linarith | simp add: less_mult_imp_div_less)+
    have "2 \<le> c div 64" "c div 64 < 32" using 2 by (simp_all add: div_less_iff_less_mult less_eq_div_iff_mult_less_eq)
    then have "utf8_width (of_nat (0xC0 + c div 64)) = 2" "second_ok (of_nat (0xC0 + c div 64)) (of_nat (0x80 + c mod 64))"
      unfolding utf8_width_def second_ok_def cont_def u Let_def by auto
    then show ?thesis using 2 unfolding utf8_char_def utf8_step_def
      by (simp add: u numeral_2_eq_2 del: of_nat_add)
  next
    case 3
    define h m l where "h = c div 4096" and "m = c div 64 mod 64" and "l = c mod 64"
    have "c = c div 64 * 64 + l" "c div 64 = h * 64 + m"
      unfolding h_def m_def l_def using div_mult2_eq [of c 64 64] by simp_all
    then have c: "c = h * 4096 + m * 64 + l" by linarith
    have ml: "m < 64" "l < 64" by (simp_all add: m_def l_def)
    with c 3 have h: "h < 16" by linarith
    have u: "unat (of_nat (0xE0 + h) :: byte) = 0xE0 + h" "unat (of_nat (0x80 + m) :: byte) = 0x80 + m"
      "unat (of_nat (0x80 + l) :: byte) = 0x80 + l"
      using h ml by (intro unat_byte; linarith)+
    have "h = 0 \<longrightarrow> 32 \<le> m" using c 3 ml by linarith
    moreover have "h = 13 \<longrightarrow> m < 32" using c ml assms by (auto simp: scalar_def)
    ultimately have ok: "utf8_width (of_nat (0xE0 + h)) = 3" "second_ok (of_nat (0xE0 + h)) (of_nat (0x80 + m))"
      "cont (of_nat (0x80 + l))"
      using h ml unfolding utf8_width_def second_ok_def cont_def u Let_def by auto
    have "utf8_char c = [of_nat (0xE0 + h), of_nat (0x80 + m), of_nat (0x80 + l)]"
      using 3 by (simp add: utf8_char_def h_def m_def l_def)
    then show ?thesis
      using ok c u by (simp add: utf8_step_def numeral_3_eq_3 del: of_nat_add)
  next
    case 4
    define h k m l where "h = c div 262144" and "k = c div 4096 mod 64" and "m = c div 64 mod 64" and "l = c mod 64"
    have "c = c div 64 * 64 + l" "c div 64 = c div 4096 * 64 + m" "c div 4096 = h * 64 + k"
      unfolding h_def k_def m_def l_def using div_mult2_eq [of c 64 64] div_mult2_eq [of c 4096 64] by simp_all
    then have c: "c = h * 262144 + k * 4096 + m * 64 + l" by linarith
    have kml: "k < 64" "m < 64" "l < 64" by (simp_all add: k_def m_def l_def)
    with c 4 have h: "h < 5" by linarith
    have u: "unat (of_nat (0xF0 + h) :: byte) = 0xF0 + h" "unat (of_nat (0x80 + k) :: byte) = 0x80 + k"
      "unat (of_nat (0x80 + m) :: byte) = 0x80 + m" "unat (of_nat (0x80 + l) :: byte) = 0x80 + l"
      using h kml by (intro unat_byte; linarith)+
    have "h = 0 \<longrightarrow> 16 \<le> k" using c 4 kml by linarith
    moreover have "h = 4 \<longrightarrow> k < 16" using c 4 kml by linarith
    ultimately have ok: "utf8_width (of_nat (0xF0 + h)) = 4" "second_ok (of_nat (0xF0 + h)) (of_nat (0x80 + k))"
      "cont (of_nat (0x80 + m))" "cont (of_nat (0x80 + l))"
      using h kml unfolding utf8_width_def second_ok_def cont_def u Let_def by auto
    have "utf8_char c = [of_nat (0xF0 + h), of_nat (0x80 + k), of_nat (0x80 + m), of_nat (0x80 + l)]"
      using 4 by (simp add: utf8_char_def h_def k_def m_def l_def)
    moreover have "utf8_width (of_nat (0xF0 + h)) = Suc (Suc 2)" using ok(1) by simp
    ultimately show ?thesis
      using ok(2-) c u by (simp add: utf8_step_def del: of_nat_add)
  qed
qed

lemma from_utf8_lossy_bytes:
  assumes "\<forall>c \<in> set s. scalar c"
  shows "from_utf8_lossy (utf8_bytes s @ bs) = s @ from_utf8_lossy bs"
  using assms
proof (induction s)
  case (Cons c s)
  have "utf8_bytes (c # s) @ bs = hd (utf8_char c) # tl (utf8_char c) @ (utf8_bytes s @ bs)"
    using utf8_step_char [of c "[]"] Cons.prems by (simp add: utf8_bytes_def)
  with utf8_step_char [of c "utf8_bytes s @ bs"] Cons show ?case by simp
qed (simp add: utf8_bytes_def)


section \<open>Chunks\<close>

lemma sse_line_leftover: "sse_line line (s\<lparr>leftover := x\<rparr>) = (sse_line line s)\<lparr>leftover := x\<rparr>"
  by (simp add: sse_line_def split: option.splits)

lemma sse_lines_leftover: "sse_lines buf (s\<lparr>leftover := x\<rparr>) = sse_lines buf s"
proof (induction buf s arbitrary: x rule: sse_lines.induct)
  case (1 buf s)
  show ?case
    by (subst (1 2) sse_lines.simps) (simp add: 1 Let_def sse_line_leftover)
qed

lemma sse_lines_none: "10 \<notin> set buf \<Longrightarrow> sse_lines buf s = s\<lparr>leftover := buf\<rparr>"
  by (subst sse_lines.simps) simp

lemma line_split:
  "10 \<notin> set line \<Longrightarrow> takeWhile (\<lambda>c. c \<noteq> 10) (line @ 10 # rest) = line"
  "10 \<notin> set line \<Longrightarrow> dropWhile (\<lambda>c. c \<noteq> 10) (line @ 10 # rest) = 10 # (rest :: rstr)"
  by (induction line) auto

lemma sse_lines_line:
  "10 \<notin> set line \<Longrightarrow> sse_lines (line @ 10 # rest) s = sse_lines rest (sse_line (chomp (line @ [10])) s)"
  by (subst sse_lines.simps) (simp add: Let_def line_split)

text \<open>Feeding a text in two parts is feeding it at once.\<close>

lemma sse_lines_append:
  "sse_lines (leftover (sse_lines a s) @ b) (sse_lines a s) = sse_lines (a @ b) s"
proof (induction a s rule: sse_lines.induct)
  case (1 a s)
  show ?case
  proof (cases "10 \<in> set a")
    case True
    then obtain line rest where a: "a = line @ 10 # rest" "10 \<notin> set line"
      by (meson split_list_first)
    have "takeWhile (\<lambda>c. c \<noteq> 10) a @ [10] = line @ [10]" "tl (dropWhile (\<lambda>c. c \<noteq> 10) a) = rest"
      using a by (simp_all add: line_split)
    with 1 True have
      "sse_lines (leftover (sse_lines rest (sse_line (chomp (line @ [10])) s)) @ b)
         (sse_lines rest (sse_line (chomp (line @ [10])) s)) = sse_lines (rest @ b) (sse_line (chomp (line @ [10])) s)"
      by metis
    with a show ?thesis by (simp add: sse_lines_line)
  qed (simp add: sse_lines_none sse_lines_leftover)
qed

lemma sse_text_append: "sse_text b (sse_text a s) = sse_text (a @ b) s"
  using sse_lines_append [of "leftover s @ a" s b] by (simp add: sse_text_def)

lemma sse_stream_texts:
  "texts \<noteq> [] \<or> leftover s = [] \<Longrightarrow> \<forall>t \<in> set texts. \<forall>c \<in> set t. scalar c \<Longrightarrow>
   sse_stream (map (Inr \<circ> utf8_bytes) texts) s = (Inr (), sse_text (concat texts) s)"
proof (induction texts arbitrary: s)
  case Nil
  then show ?case by (simp add: sse_text_def sse_lines_none)
next
  case (Cons t texts)
  from Cons.prems have "from_utf8_lossy (utf8_bytes t) = t"
    using from_utf8_lossy_bytes [of t "[]"] by simp
  moreover have "sse_text (concat texts) (sse_text t s) = sse_text (t @ concat texts) s"
    by (rule sse_text_append)
  ultimately show ?case
    using Cons by (cases texts) (simp_all add: sse_chunk_def)
qed

section \<open>The documented event format\<close>

text \<open>
  An event as the documentation of \<open>subscribe_sse\<close> writes it: its type, if it has one, the
  lines of its data, a blank line.
\<close>

definition sse_wire :: "rstr option \<times> rstr list \<Rightarrow> rstr" where
  "sse_wire = (\<lambda>(ev, ls).
     (case ev of None \<Rightarrow> [] | Some e \<Rightarrow> lit ''event: '' @ e @ [10]) @
     concat (map (\<lambda>l. lit ''data: '' @ l @ [10]) ls) @ [10])"

text \<open>A value that fits on a line and has no white space around it.\<close>

definition line_value :: "rstr \<Rightarrow> bool" where
  "line_value v \<longleftrightarrow> 10 \<notin> set v \<and> trim v = v"

definition sse_event_ok :: "rstr option \<times> rstr list \<Rightarrow> bool" where
  "sse_event_ok = (\<lambda>(ev, ls).
     (case ev of None \<Rightarrow> True | Some e \<Rightarrow> line_value e) \<and> ls \<noteq> [] \<and> list_all line_value ls)"

definition sse_meaning :: "rstr option \<times> rstr list \<Rightarrow> rstr \<times> rstr" where
  "sse_meaning = (\<lambda>(ev, ls). (case ev of None \<Rightarrow> lit ''message'' | Some e \<Rightarrow> e, join_lines ls))"

lemma trim_last: "trim v = v \<Longrightarrow> v \<noteq> [] \<Longrightarrow> \<not> is_whitespace (last v)"
proof -
  assume v: "trim v = v" "v \<noteq> []"
  then have "rev v = dropWhile is_whitespace (rev (dropWhile is_whitespace v))"
    by (metis trim_def trim_end_while_def rev_rev_ident)
  then have "\<not> is_whitespace (hd (rev v))"
    using v(2) by (metis hd_dropWhile rev_is_Nil_conv)
  with v(2) show ?thesis by (simp add: hd_rev)
qed

lemma trim_space: "trim (32 # v) = trim v"
  by (simp add: trim_def is_whitespace_def)

lemma chomp_line:
  assumes "line \<noteq> []" "10 \<notin> set line" "last line \<noteq> 13"
  shows "chomp (line @ [10]) = line"
proof -
  from assms have "last line \<noteq> 10" by (metis last_in_set)
  then have "trim_end_while (\<lambda>c. c = 10) (line @ [10]) = line"
    using assms(1) by (cases line rule: rev_cases) (simp_all add: trim_end_while_def)
  then show ?thesis
    using assms(1,3) by (cases line rule: rev_cases) (simp_all add: chomp_def trim_end_while_def)
qed

lemma chomp_blank: "chomp [10] = []"
  by (simp add: chomp_def trim_end_while_def)

lemma chomp_value:
  assumes "line_value v" "10 \<notin> set p"
  shows "chomp (p @ 32 # v @ [10]) = p @ 32 # v"
proof -
  from assms(1) have "v \<noteq> [] \<Longrightarrow> last v \<noteq> 13"
    using trim_last [of v] by (auto simp: line_value_def is_whitespace_def)
  with assms show ?thesis
    using chomp_line [of "p @ 32 # v"] by (cases "v = []") (auto simp: line_value_def)
qed

lemma sse_lines_event:
  assumes "line_value e"
  shows "sse_lines (lit ''event: '' @ e @ 10 # rest) s = sse_lines rest (s\<lparr>event_type := e\<rparr>)"
proof -
  have lit: "lit ''event: '' @ e = lit ''event:'' @ 32 # e" by (simp add: lit_def)
  have "10 \<notin> set (lit ''event: '' @ e)" using assms by (simp add: lit_def line_value_def)
  from sse_lines_line [OF this, of rest s]
  have "sse_lines (lit ''event: '' @ e @ 10 # rest) s
      = sse_lines rest (sse_line (chomp (lit ''event:'' @ 32 # e @ [10])) s)"
    by (simp add: lit_def)
  also have "chomp (lit ''event:'' @ 32 # e @ [10]) = lit ''event:'' @ 32 # e"
    by (rule chomp_value [OF assms]) (simp add: lit_def)
  also have "sse_line \<dots> s = s\<lparr>event_type := e\<rparr>"
    using assms by (simp add: sse_line_def trim_space line_value_def)
  finally show ?thesis .
qed

lemma sse_lines_data:
  assumes "line_value l"
  shows "sse_lines (lit ''data: '' @ l @ 10 # rest) s = sse_lines rest (s\<lparr>data_lines := data_lines s @ [l]\<rparr>)"
proof -
  have "10 \<notin> set (lit ''data: '' @ l)" using assms by (simp add: lit_def line_value_def)
  from sse_lines_line [OF this, of rest s]
  have "sse_lines (lit ''data: '' @ l @ 10 # rest) s
      = sse_lines rest (sse_line (chomp (lit ''data:'' @ 32 # l @ [10])) s)"
    by (simp add: lit_def)
  also have "chomp (lit ''data:'' @ 32 # l @ [10]) = lit ''data:'' @ 32 # l"
    by (rule chomp_value [OF assms]) (simp add: lit_def)
  also have "sse_line \<dots> s = s\<lparr>data_lines := data_lines s @ [l]\<rparr>"
  proof -
    have "strip_prefix (lit ''event:'') (lit ''data:'' @ 32 # l) = None" by (simp add: lit_def)
    then show ?thesis
      using assms by (simp add: sse_line_def trim_space line_value_def)
  qed
  finally show ?thesis .
qed

lemma sse_lines_datas:
  "list_all line_value ls \<Longrightarrow>
   sse_lines (concat (map (\<lambda>l. lit ''data: '' @ l @ [10]) ls) @ rest) s
     = sse_lines rest (s\<lparr>data_lines := data_lines s @ ls\<rparr>)"
  by (induction ls arbitrary: s) (simp_all add: sse_lines_data)

lemma sse_lines_blank:
  "data_lines s \<noteq> [] \<Longrightarrow>
   sse_lines (10 # rest) s =
     sse_lines rest (s\<lparr>events := events s @ [(event_type s, join_lines (data_lines s))], data_lines := [],
                       event_type := lit ''message''\<rparr>)"
  using sse_lines_line [of "[]" rest s] by (simp add: chomp_blank sse_line_def)

text \<open>Between events: nothing collected, the default type.\<close>

definition sse_idle :: "sse_state \<Rightarrow> bool" where
  "sse_idle s \<longleftrightarrow> event_type s = lit ''message'' \<and> data_lines s = []"

lemma sse_lines_wire:
  assumes "sse_idle s" "sse_event_ok e"
  shows "sse_lines (sse_wire e @ rest) s = sse_lines rest (s\<lparr>events := events s @ [sse_meaning e]\<rparr>)"
proof -
  obtain ev ls where e: "e = (ev, ls)" by fastforce
  show ?thesis
  proof (cases ev)
    case None
    with e assms show ?thesis
      by (cases s) (simp add: sse_wire_def sse_event_ok_def sse_lines_datas sse_lines_blank sse_meaning_def sse_idle_def)
  next
    case (Some t)
    with e assms show ?thesis
      by (cases s) (simp add: sse_wire_def sse_event_ok_def sse_lines_event sse_lines_datas sse_lines_blank sse_meaning_def
          sse_idle_def)
  qed
qed

lemma sse_lines_wires:
  "sse_idle s \<Longrightarrow> list_all sse_event_ok es \<Longrightarrow>
   sse_lines (concat (map sse_wire es)) s = s\<lparr>events := events s @ map sse_meaning es, leftover := []\<rparr>"
proof (induction es arbitrary: s)
  case Nil
  then show ?case by (simp add: sse_lines_none)
next
  case (Cons e es)
  then show ?case by (simp add: sse_lines_wire sse_idle_def)
qed

section \<open>Correctness of the subscription\<close>

text \<open>
  C17. A stream of documented events, however the body is cut into chunks, as long as no cut
  falls inside a character, gives the handler exactly those events in order, each with its type
  (\<open>message\<close> if it names none) and its data lines joined by line feeds.
\<close>

theorem sse_roundtrip:
  assumes "list_all sse_event_ok es" and "concat texts = concat (map sse_wire es)"
    and "\<forall>t \<in> set texts. \<forall>c \<in> set t. scalar c"
    and "is_success status"
  shows "connect_sse (Inr (status, line, map (Inr \<circ> utf8_bytes) texts))
         = (Inr (), sse_new\<lparr>events := map sse_meaning es\<rparr>)"
proof -
  have "sse_idle sse_new" by (simp add: sse_idle_def sse_new_def)
  from sse_lines_wires [OF this assms(1)]
  have at_once: "sse_text (concat texts) sse_new = sse_new\<lparr>events := map sse_meaning es\<rparr>"
    unfolding sse_text_def assms(2) by (simp add: sse_new_def)
  have "leftover sse_new = []" by (simp add: sse_new_def)
  with assms(3) have "sse_stream (map (Inr \<circ> utf8_bytes) texts) sse_new = (Inr (), sse_text (concat texts) sse_new)"
    by (intro sse_stream_texts) simp_all
  with assms(4) show ?thesis unfolding connect_sse_def at_once by simp
qed

lemma sse_roundtrip_witness:
  "connect_sse (Inr (200, lit ''200 OK'',
       map (Inr \<circ> utf8_bytes) [lit ''event: status'' @ [10] @ lit ''data: on'', [10, 10]]))
   = (Inr (), sse_new\<lparr>events := [(lit ''status'', lit ''on'')]\<rparr>)"
proof -
  let ?es = "[(Some (lit ''status''), [lit ''on''])]"
  let ?texts = "[lit ''event: status'' @ [10] @ lit ''data: on'', [10, 10]]"
  have "list_all sse_event_ok ?es"
    by (simp add: sse_event_ok_def line_value_def lit_def trim_def trim_end_while_def is_whitespace_def)
  moreover have "concat ?texts = concat (map sse_wire ?es)" by (simp add: lit_def sse_wire_def)
  moreover have "\<forall>t \<in> set ?texts. \<forall>c \<in> set t. scalar c" by (simp add: lit_def scalar_def)
  moreover have "is_success 200" by (simp add: is_success_def)
  ultimately have "connect_sse (Inr (200, lit ''200 OK'', map (Inr \<circ> utf8_bytes) ?texts))
      = (Inr (), sse_new\<lparr>events := map sse_meaning ?es\<rparr>)"
    by (rule sse_roundtrip)
  then show ?thesis by (simp add: sse_meaning_def)
qed

text \<open>
  A cut inside a character destroys it: each chunk is decoded on its own, so both halves of
  an e with an acute accent (U+00E9) reach the handler as replacement characters, while the same bytes in
  one chunk give the character.
\<close>

theorem sse_split_character:
  "events (snd (sse_stream [Inr (utf8_bytes (lit ''data: '') @ [0xC3]), Inr [0xA9, 10, 10]] sse_new))
     = [(lit ''message'', [0xFFFD, 0xFFFD])] \<and>
   events (snd (sse_stream [Inr (utf8_bytes (lit ''data: '') @ [0xC3] @ [0xA9, 10, 10])] sse_new))
     = [(lit ''message'', [0xE9])]"
proof -
  have steps: "utf8_step 0xC3 [] = (0xFFFD, [])" "utf8_step 0xA9 [10, 10] = (0xFFFD, [10, 10])"
    "utf8_step 0xC3 [0xA9, 10, 10] = (0xE9, [10, 10])" "utf8_step 10 [10] = (10, [10])" "utf8_step 10 [] = (10, [])"
    by (simp_all add: utf8_step_def utf8_width_def second_ok_def cont_def)
  have "\<forall>c \<in> set (lit ''data: ''). scalar c" by (simp add: lit_def scalar_def)
  note prefix = from_utf8_lossy_bytes [OF this]
  have "from_utf8_lossy (utf8_bytes (lit ''data: '') @ [0xC3]) = lit ''data: '' @ [0xFFFD]"
    "from_utf8_lossy [0xA9, 10, 10] = [0xFFFD, 10, 10]"
    "from_utf8_lossy (utf8_bytes (lit ''data: '') @ [0xC3, 0xA9, 10, 10]) = lit ''data: '' @ [0xE9, 10, 10]"
    unfolding prefix by (simp_all add: steps)
  then show ?thesis
    by (simp add: sse_chunk_def sse_text_append)
      (simp add: sse_text_def sse_new_def sse_lines_data sse_lines_blank sse_lines_none line_value_def
        trim_def trim_end_while_def is_whitespace_def sse_lines_data [where l = "[_]", simplified]
        sse_lines_data [where l = "[_, _]", simplified])
qed

section \<open>Correctness of the reconnect loop and of the emitters\<close>

text \<open>The loop stops only when its token is cancelled, and then for good.\<close>

lemma sse_loop_stays_stopped: "fold sse_loop_step is SseStopped = SseStopped"
proof (induction "is")
  case (Cons i "is")
  have "sse_loop_step i SseStopped = SseStopped" by (cases i) simp_all
  with Cons show ?case by simp
qed simp

lemma sse_loop_runs:
  "p \<noteq> SseStopped \<Longrightarrow> \<forall>i \<in> set is. i \<noteq> SseCancelled \<and> i \<noteq> SseDone True \<Longrightarrow> fold sse_loop_step is p \<noteq> SseStopped"
proof (induction "is" arbitrary: p)
  case (Cons i "is")
  from Cons.prems have "sse_loop_step i p \<noteq> SseStopped"
    by (cases "(i, p)" rule: sse_loop_step.cases) auto
  with Cons show ?case by simp
qed simp

text \<open>
  C39. \<open>broadcast_sse_json\<close> sends the event once to every emitter that is alive and keeps exactly
  those, in order.  When the data cannot be serialised it removes every emitter, the live ones too; a panic of the event builder needs a live emitter.
\<close>

theorem broadcast_keeps_the_live:
  assumes "\<forall>tx event. fst (us_send us tx event) = (\<not> us_is_closed us tx)"
  shows "broadcast_sse_json us build to_json txs ev data =
    (case to_json data of
       Inl e \<Rightarrow> Some []
     | Inr json \<Rightarrow>
         (case build ev json of
            None \<Rightarrow> if filter (emitter_is_alive us) txs = [] then Some [] else None
          | Some event \<Rightarrow> Some (map (\<lambda>tx. snd (us_send us tx event)) (filter (emitter_is_alive us) txs))))"
proof (induction txs)
  case (Cons tx txs)
  obtain ok tx1 where send: "\<And>event. us_send us tx event = (ok event, tx1 event)"
    using that [of "\<lambda>event. fst (us_send us tx event)" "\<lambda>event. snd (us_send us tx event)"] by simp
  with assms have ok: "\<And>event. ok event = (\<not> us_is_closed us tx)" by (metis fst_conv)
  have alive: "emitter_is_alive us = (\<lambda>a. \<not> us_is_closed us a)" by (simp add: fun_eq_iff emitter_is_alive_def)
  show ?case
    using Cons by (auto simp: emitter_send_json_def emitter_send_def alive send ok
        split: sum.splits option.splits)
qed (auto split: sum.splits option.splits)

text \<open>Three emitters, the second closed; an emitter is whether it is closed and what it was sent.\<close>

definition sample_us :: "(bool \<times> (rstr \<times> rstr) list, rstr \<times> rstr) sse_sender" where
  "sample_us = \<lparr>us_send = (\<lambda>(closed, sent) e. if closed then (False, (closed, sent)) else (True, (closed, sent @ [e]))),
                us_is_closed = fst\<rparr>"

lemma broadcast_keeps_the_live_witness:
  "broadcast_sse_json sample_us (\<lambda>ev d. Some (ev, d)) Inr [(False, []), (True, []), (False, [])] [1] [2]
   = Some [(False, [([1], [2])]), (False, [([1], [2])])]"
proof -
  have "\<forall>tx event. fst (us_send sample_us tx event) = (\<not> us_is_closed sample_us tx)"
    by (simp add: sample_us_def split: prod.splits)
  from broadcast_keeps_the_live [OF this, of "\<lambda>ev d. Some (ev, d)" Inr "[(False, []), (True, []), (False, [])]" "[1]" "[2]"]
  show ?thesis by (simp add: emitter_is_alive_def sample_us_def)
qed

end
