(* ===== verification/EdgeCases.thy ===== *)
theory EdgeCases
  imports LoginCases Sse
begin

text \<open>
  Behaviours of the code that its users should know: what is accepted, dropped, kept or never
  called where a reader of the interface would not expect it.
\<close>

section \<open>Server\<close>

text \<open>\<open>ws/server/mod.rs\<close>: a hello that repeats the protocol's name before the version is accepted.\<close>

lemma trim_start_matches_twice:
  "p \<noteq> [] \<Longrightarrow> \<not> starts_with r p \<Longrightarrow> trim_start_matches (p @ p @ r) p = r"
  by (subst trim_start_matches.simps) (simp add: trim_start_matches_once)

lemma repeated_name_accepted:
  assumes "\<forall>c \<in> set (sc_protocol_name cfg @ sc_protocol_version cfg). protocol_char c"
  shows "hello_accepted cfg (sc_protocol_name cfg @ lit '' '' @ sc_protocol_name cfg @ lit '' '' @ sc_protocol_version cfg)"
proof -
  let ?p = "sc_protocol_name cfg @ lit '' ''" and ?v = "sc_protocol_version cfg"
  have sp: "lit '' '' = [32]" by (simp add: lit_def)
  have "32 \<notin> set ?v" using assms protocol_char_not_space by auto
  then have "\<not> starts_with ?v ?p" by (auto simp: starts_with_iff sp)
  then have "trim_start_matches (?p @ ?p @ ?v) ?p = ?v" by (intro trim_start_matches_twice) (simp_all add: sp)
  moreover have "trim ?v = ?v" using assms protocol_char_not_whitespace by (intro trim_none) auto
  moreover have "starts_with (?p @ ?p @ ?v) ?p" unfolding starts_with_iff by blast
  ultimately have "hello_accepted cfg (?p @ ?p @ ?v)" by (simp only: hello_accepted_def)
  then show ?thesis by simp
qed

text \<open>
  \<open>ws/server/session.rs\<close>: reading sends nothing.  The Pongs for the Pings among what is read are
  queued, and none of them is on the wire until a command comes: a client whose heartbeat fires
  again before that drops a server that is alive.
\<close>

lemma pongs_stay_queued:
  assumes "se_socket se = script_socket" "\<forall>e \<in> set es. \<exists>now. e = WsReady now True"
    and "run_turns (server_handle se) es s = (Continue, s')"
  shows "snd (ss_ws s') = snd (ss_ws s)"
proof -
  from assms(2) obtain ts where es: "es = map (\<lambda>t. WsReady t True) ts" by (induction es) (auto, metis list.map(2))
  show ?thesis using server_reads_input [OF assms(1) assms(3) [unfolded es]] by simp
qed

section \<open>Client\<close>

text \<open>
  \<open>ws/client/mod.rs\<close>: with a full command channel \<open>set_endpoint\<close> succeeds, and its task is not told.
\<close>

lemma full_channel_hides_endpoint:
  assumes "parse u = Some v" "try_send mp (cl_cmd_tx c) EndpointChanged = (Some Full, cl_cmd_tx c)"
  shows "set_endpoint mp parse c u = (Inr (), c\<lparr>cl_url := Some u\<rparr>)"
  using assms by (simp add: set_endpoint_def notify_def)

text \<open>
  A request that finds the command channel closed fails, and its entry stays in the pending map:
  only a response with its id or a cleared map would remove it, and the loop has ended.
\<close>

lemma closed_channel_keeps_entry:
  assumes "request_start data c = ((k, f), c1)" "request_send mp f p c1 = (Some r, c2)"
  shows "r = Inl ChannelError \<and> cl_pending c2 (f_id f) = Some k"
  using assms by (auto simp: request_start_def request_send_def pending_insert_def Let_def split: prod.splits if_splits)

text \<open>
  \<open>ws/client/connection_loop.rs\<close>: a \<open>reconnect\<close> while online closes the connection and then waits
  the delay of attempt 1, publishing \<open>Reconnecting\<close>.
\<close>

lemma reconnect_online_backs_off:
  assumes "cn_phase s = Running ml" "cl_url (cn_client s) = Some url" "\<not> cl_cancelled (cn_client s)"
    and "auto_reconnect (cn_client s)" "cn_ever s"
    and "cc_backoff (ce_config (cn_env env)) 1 = Some d" "from_secs 0 < d"
  shows "\<exists>s'. conn_step env Tick (conn_step env (LoopTurn (MlCmd Reconnect arrivals)) s) = s' \<and> cn_phase s' = BackingOff url \<and>
    cl_states (cn_client s') = cl_states (cn_client s) @ [Disconnected, Reconnecting 1 d]"
  using assms by (simp add: conn_turn_def ml_on_cmd_def conn_offline_def conn_top_def conn_defs auto_reconnect_def
      pending_clear_def publish_def)

text \<open>
  A \<open>reconnect\<close> or a new endpoint that is fetched while the loop drains the channel only closes
  the socket and leaves the sending loop; the loop itself relies on the closed socket to end.
  On wasm \<open>close\<close> does nothing: the request is lost and the old connection goes on.
\<close>

lemma drained_reconnect_lost_on_wasm:
  assumes "ce_socket env = wasm_websocket nx inner" "cmd = Reconnect \<or> cmd = EndpointChanged"
    and "wfq_next (enqueue (ml_sched s) f p) = (Some g, q)"
    and "send_frame (ce_snow env) (ce_postcard env) (ce_socket env) Binary (ml_noise s, ml_ws s) g = (True, ns, w)"
  shows "ml_on_cmd env (Send f p) [[cmd]] s = (Continue, s\<lparr>ml_sched := q, ml_noise := ns, ml_ws := w\<rparr>)"
proof -
  have "ws_close (ce_socket env) w = (Inr (), w)" for w by (simp add: assms(1) wasm_websocket_def wasm_close_def)
  with assms(2-4) show ?thesis
    by (auto simp: ml_on_cmd_def ml_fuel_def ml_flush_Suc arrived_def simp del: ml_flush.simps)
qed

text \<open>\<open>auth.rs\<close>: \<open>on_session_expired\<close> is never called, so that no step depends on it.\<close>

lemma session_expiry_unused:
  "conn_step (env\<lparr>cn_auth := (cn_auth env)\<lparr>on_session_expired := h\<rparr>\<rparr>) i s = conn_step env i s"
proof -
  let ?env = "env\<lparr>cn_auth := (cn_auth env)\<lparr>on_session_expired := h\<rparr>\<rparr>"
  have auth: "handle_auth sn pc sk ((cn_auth env)\<lparr>on_session_expired := h\<rparr>) cfg b u ns w = handle_auth sn pc sk (cn_auth env) cfg b u ns w"
    for sn pc sk cfg b u ns w by (simp add: handle_auth_def split: option.splits sum.splits prod.splits)
  have secure: "conn_secure ?env b t ws s = conn_secure env b t ws s" for b t ws s
    by (simp add: conn_secure_def auth Let_def split: sum.splits prod.splits)
  have opened: "conn_opened ?env b t ws s = conn_opened env b t ws s" for b t ws
    by (simp add: conn_opened_def secure Let_def split: version_result.splits connection_state.splits prod.splits)
  show ?thesis by (cases i; cases "cn_phase s") (simp_all add: conn_top_def opened split: sum.splits option.splits)
qed

section \<open>Events\<close>

text \<open>
  \<open>http/client.rs\<close>: an \<open>event:\<close> line without data before the blank line gives its type to the
  next event, which has none of its own.
\<close>

lemma blank_line_keeps_type:
  assumes "data_lines s = []"
  shows "events (fold sse_line [lit ''event:a'', [], lit ''data:b'', []] s) = events s @ [(lit ''a'', lit ''b'')]"
  using assms by (simp add: sse_line_def trim_def trim_end_while_def is_whitespace_def lit_def)

end
