(* ===== verification/Http.thy ===== *)
theory Http
  imports Sse State Transport
begin

text \<open>
  The HTTP client (\<open>src/http/client.rs\<close>, its \<open>Transport\<close> implementation in
  \<open>src/http/transport.rs\<close>).

  Parameters: \<open>url\<close> (parse, join, print), \<open>reqwest\<close> (building a client, sending a request,
  reading the body), the parser of header values, \<open>serde_json\<close>.  The network is a state \<open>'w\<close>
  that a request changes.
\<close>

section \<open>What the client calls\<close>

record 'url url_lib =
  ul_parse :: "rstr \<Rightarrow> 'url option"
  ul_join :: "'url \<Rightarrow> rstr \<Rightarrow> 'url option"
  ul_show :: "'url \<Rightarrow> rstr"

datatype http_method = Get | Post | Delete

record 'url http_req =
  rq_method :: http_method
  rq_url :: 'url
  rq_content_type :: "rstr option"
  rq_body :: "byte list"

text \<open>The body is what reading it gives: bytes or the error.\<close>

record http_response =
  rs_status :: nat
  rs_reason :: "rstr option"
  rs_body :: "rstr + byte list"

type_synonym ('w, 'url) http_send = "'w \<Rightarrow> 'url http_req \<Rightarrow> (rstr + http_response) \<times> 'w"

section \<open>The client\<close>

record http_client_config =
  hc_base_url :: rstr
  hc_request_timeout :: duration
  hc_auth_token :: "rstr option"

definition http_client_config_new :: "rstr \<Rightarrow> http_client_config" where
  "http_client_config_new url = \<lparr>hc_base_url = url, hc_request_timeout = from_secs 30, hc_auth_token = None\<rparr>"

definition with_auth_token :: "http_client_config \<Rightarrow> rstr \<Rightarrow> http_client_config" where
  "with_auth_token c token = c\<lparr>hc_auth_token := Some token\<rparr>"

text \<open>The tasks \<open>send_event\<close> and \<open>on_event\<close> spawn on the client's join set.\<close>

datatype ('url, 'e) http_task = EventPost 'url "byte list" | EventStream 'url 'e

text \<open>The built \<open>reqwest::Client\<close> is a value \<open>'cl\<close>.\<close>

record ('cl, 'url, 'e) http_client =
  h_client :: 'cl
  h_base_url :: "'url option"
  h_config :: http_client_config
  h_state :: connection_state
  h_cancelled :: bool
  h_tasks :: "('url, 'e) http_task list"

definition http_base :: "'url url_lib \<Rightarrow> http_client_config \<Rightarrow> transport_error + 'url option" where
  "http_base ul config =
     (if hc_base_url config = [] then Inr None
      else case ul_parse ul (hc_base_url config) of
        None \<Rightarrow> Inl (InvalidUrl (hc_base_url config))
      | Some u \<Rightarrow> Inr (Some u))"

text \<open>\<open>Authorization: Bearer <token>\<close>; the header parser refuses some texts.\<close>

definition http_auth_header :: "(rstr \<Rightarrow> 'h option) \<Rightarrow> http_client_config \<Rightarrow> transport_error + 'h option" where
  "http_auth_header parse_header config =
     (case hc_auth_token config of
        None \<Rightarrow> Inr None
      | Some token \<Rightarrow>
          (case parse_header (lit ''Bearer '' @ token) of
             None \<Rightarrow> Inl (ConnectionFailed (lit ''invalid auth token''))
           | Some h \<Rightarrow> Inr (Some h)))"

definition http_client_new :: "'url url_lib \<Rightarrow> (rstr \<Rightarrow> 'h option) \<Rightarrow> (duration \<Rightarrow> 'h option \<Rightarrow> rstr + 'cl) \<Rightarrow>
    http_client_config \<Rightarrow> transport_error + ('cl, 'url, 'e) http_client" where
  "http_client_new ul parse_header build config =
     res_bind (http_base ul config) (\<lambda>base.
     res_bind (http_auth_header parse_header config) (\<lambda>header.
     res_bind (map_err ConnectionFailed (build (hc_request_timeout config) header)) (\<lambda>client.
     Inr \<lparr>h_client = client, h_base_url = base, h_config = config, h_state = Online, h_cancelled = False,
           h_tasks = []\<rparr>)))"

definition http_resolve :: "'url url_lib \<Rightarrow> ('cl, 'url, 'e) http_client \<Rightarrow> rstr \<Rightarrow> transport_error + 'url" where
  "http_resolve ul c path =
     (case h_base_url c of
        None \<Rightarrow> Inl (InvalidUrl (lit ''No endpoint set''))
      | Some base \<Rightarrow>
          (case ul_join ul base path of
             None \<Rightarrow> Inl (InvalidUrl path)
           | Some url \<Rightarrow> Inr url))"

section \<open>Requests\<close>

text \<open>
  The tail the calls share: send, refuse a status that is not a success (\<open>refusal\<close> is the text
  of that call), hand the response on.
\<close>

definition http_exchange :: "('w, 'url) http_send \<Rightarrow> 'w \<Rightarrow> 'url http_req \<Rightarrow> (http_response \<Rightarrow> rstr) \<Rightarrow>
    (http_response \<Rightarrow> transport_error + 'a) \<Rightarrow> (transport_error + 'a) \<times> 'w" where
  "http_exchange send w rq refusal k =
     (case send w rq of
        (Inl e, w1) \<Rightarrow> (Inl (HttpError e), w1)
      | (Inr rs, w1) \<Rightarrow>
          (if \<not> is_success (rs_status rs) then (Inl (HttpError (refusal rs)), w1) else (k rs, w1)))"

definition http_json :: "(byte list \<Rightarrow> rstr + 'd) \<Rightarrow> http_response \<Rightarrow> transport_error + 'd" where
  "http_json from_json rs = map_err DecodeError (res_bind (rs_body rs) from_json)"

text \<open>A body that does not serialise is an error of \<open>send\<close>, and nothing is sent.\<close>

definition http_post :: "'url url_lib \<Rightarrow> ('w, 'url) http_send \<Rightarrow> ('b \<Rightarrow> rstr + byte list) \<Rightarrow> (byte list \<Rightarrow> rstr + 'd) \<Rightarrow>
    ('cl, 'url, 'e) http_client \<Rightarrow> 'w \<Rightarrow> rstr \<Rightarrow> 'b \<Rightarrow> (transport_error + 'd) \<times> 'w" where
  "http_post ul send to_json from_json c w path body =
     (case http_resolve ul c path of
        Inl e \<Rightarrow> (Inl e, w)
      | Inr url \<Rightarrow>
          (case to_json body of
             Inl e \<Rightarrow> (Inl (HttpError e), w)
           | Inr json \<Rightarrow>
               http_exchange send w
                 \<lparr>rq_method = Post, rq_url = url, rq_content_type = Some (lit ''application/json''), rq_body = json\<rparr>
                 (\<lambda>rs. lit ''HTTP '' @ show_nat (rs_status rs) @ lit '' '' @ case_option [] (\<lambda>r. r) (rs_reason rs))
                 (http_json from_json)))"

definition http_get :: "'url url_lib \<Rightarrow> ('w, 'url) http_send \<Rightarrow> (byte list \<Rightarrow> rstr + 'd) \<Rightarrow>
    ('cl, 'url, 'e) http_client \<Rightarrow> 'w \<Rightarrow> rstr \<Rightarrow> (transport_error + 'd) \<times> 'w" where
  "http_get ul send from_json c w path =
     (case http_resolve ul c path of
        Inl e \<Rightarrow> (Inl e, w)
      | Inr url \<Rightarrow>
          http_exchange send w \<lparr>rq_method = Get, rq_url = url, rq_content_type = None, rq_body = []\<rparr>
            (\<lambda>rs. lit ''HTTP '' @ show_nat (rs_status rs)) (http_json from_json))"

definition http_delete :: "'url url_lib \<Rightarrow> ('w, 'url) http_send \<Rightarrow> ('cl, 'url, 'e) http_client \<Rightarrow> 'w \<Rightarrow> rstr \<Rightarrow>
    (transport_error + unit) \<times> 'w" where
  "http_delete ul send c w path =
     (case http_resolve ul c path of
        Inl e \<Rightarrow> (Inl e, w)
      | Inr url \<Rightarrow>
          http_exchange send w \<lparr>rq_method = Delete, rq_url = url, rq_content_type = None, rq_body = []\<rparr>
            (\<lambda>rs. lit ''HTTP '' @ show_nat (rs_status rs)) (\<lambda>_. Inr ()))"

section \<open>The transport interface\<close>

definition octet_stream :: rstr where
  "octet_stream = lit ''application/octet-stream''"

definition http_request :: "'url url_lib \<Rightarrow> ('w, 'url) http_send \<Rightarrow> ('cl, 'url, 'e) http_client \<Rightarrow> 'w \<Rightarrow> byte list \<Rightarrow>
    (transport_error + byte list) \<times> 'w" where
  "http_request ul send c w data =
     (case http_resolve ul c (lit ''/request'') of
        Inl e \<Rightarrow> (Inl e, w)
      | Inr url \<Rightarrow>
          http_exchange send w
            \<lparr>rq_method = Post, rq_url = url, rq_content_type = Some octet_stream, rq_body = data\<rparr>
            (\<lambda>rs. lit ''HTTP '' @ show_nat (rs_status rs)) (\<lambda>rs. map_err DecodeError (rs_body rs)))"

definition http_send_event :: "'url url_lib \<Rightarrow> ('cl, 'url, 'e) http_client \<Rightarrow> byte list \<Rightarrow>
    (transport_error + unit) \<times> ('cl, 'url, 'e) http_client" where
  "http_send_event ul c data =
     (case http_resolve ul c (lit ''/event'') of
        Inl e \<Rightarrow> (Inl e, c)
      | Inr url \<Rightarrow> (Inr (), c\<lparr>h_tasks := h_tasks c @ [EventPost url data]\<rparr>))"

definition http_on_event :: "'url url_lib \<Rightarrow> 'e \<Rightarrow> ('cl, 'url, 'e) http_client \<Rightarrow> ('cl, 'url, 'e) http_client" where
  "http_on_event ul handler c =
     (case http_resolve ul c (lit ''/events'') of
        Inl e \<Rightarrow> c
      | Inr url \<Rightarrow> c\<lparr>h_tasks := h_tasks c @ [EventStream url handler]\<rparr>)"

text \<open>The task of \<open>send_event\<close>; its result is dropped.\<close>

definition http_event_post :: "('w, 'url) http_send \<Rightarrow> 'w \<Rightarrow> 'url \<Rightarrow> byte list \<Rightarrow> 'w" where
  "http_event_post send w url data =
     snd (send w \<lparr>rq_method = Post, rq_url = url, rq_content_type = Some octet_stream, rq_body = data\<rparr>)"

text \<open>What the wrapper in \<open>on_event\<close> passes to the application's handler.\<close>

definition http_handler_calls :: "'e \<Rightarrow> (rstr \<times> rstr) list \<Rightarrow> ('e \<times> byte list) list" where
  "http_handler_calls handler evs = map (\<lambda>(event_type, data). (handler, utf8_bytes data)) evs"

definition http_set_endpoint :: "'url url_lib \<Rightarrow> ('cl, 'url, 'e) http_client \<Rightarrow> rstr \<Rightarrow>
    (transport_error + unit) \<times> ('cl, 'url, 'e) http_client" where
  "http_set_endpoint ul c url_str =
     (case ul_parse ul url_str of
        None \<Rightarrow> (Inl (InvalidUrl url_str), c)
      | Some url \<Rightarrow> (Inr (), c\<lparr>h_base_url := Some url\<rparr>))"

definition http_clear_endpoint :: "('cl, 'url, 'e) http_client \<Rightarrow> ('cl, 'url, 'e) http_client" where
  "http_clear_endpoint c = c\<lparr>h_base_url := None\<rparr>"

definition http_endpoint :: "'url url_lib \<Rightarrow> ('cl, 'url, 'e) http_client \<Rightarrow> rstr option" where
  "http_endpoint ul c = map_option (ul_show ul) (h_base_url c)"

definition http_shutdown :: "('cl, 'url, 'e) http_client \<Rightarrow> ('cl, 'url, 'e) http_client" where
  "http_shutdown c = c\<lparr>h_cancelled := True\<rparr>"

section \<open>Subscriptions\<close>

text \<open>Dropping the client cancels its token, as \<open>shutdown\<close> does.\<close>

definition http_drop :: "('cl, 'url, 'e) http_client \<Rightarrow> ('cl, 'url, 'e) http_client" where
  "http_drop c = c\<lparr>h_cancelled := True\<rparr>"

text \<open>
  A subscription has a token of its own.  The handle and the loop it started are one record;
  \<open>sub_attempts\<close> counts the requests the loop has started.
\<close>

record 'url sse_subscription =
  sub_url :: 'url
  sub_cancelled :: bool
  sub_phase :: sse_phase
  sub_attempts :: nat

definition subscribe_sse :: "'url url_lib \<Rightarrow> ('cl, 'url, 'e) http_client \<Rightarrow> rstr \<Rightarrow> transport_error + 'url sse_subscription" where
  "subscribe_sse ul c path =
     (case http_resolve ul c path of
        Inl e \<Rightarrow> Inl e
      | Inr url \<Rightarrow> Inr \<lparr>sub_url = url, sub_cancelled = False, sub_phase = SseConnecting, sub_attempts = 1\<rparr>)"

definition drop_subscription :: "'url sse_subscription \<Rightarrow> 'url sse_subscription" where
  "drop_subscription s = s\<lparr>sub_cancelled := True\<rparr>"

text \<open>What wakes the loop: its token, the end of \<open>connect_sse\<close>, the pause.\<close>

datatype sub_wake = SubCancel | SubStreamEnd | SubPauseOver

fun sub_input :: "bool \<Rightarrow> sub_wake \<Rightarrow> sse_input" where
  "sub_input cancelled SubCancel = SseCancelled"
| "sub_input cancelled SubStreamEnd = SseDone cancelled"
| "sub_input cancelled SubPauseOver = SseTimer"

fun sub_ready :: "'url sse_subscription \<Rightarrow> sub_wake \<Rightarrow> bool" where
  "sub_ready s SubCancel = (sub_cancelled s \<and> sub_phase s \<noteq> SseStopped)"
| "sub_ready s SubStreamEnd = (sub_phase s = SseConnecting)"
| "sub_ready s SubPauseOver = (sub_phase s = SsePausing)"

definition sub_step :: "sub_wake \<Rightarrow> 'url sse_subscription \<Rightarrow> 'url sse_subscription" where
  "sub_step w s =
     (let p = sse_loop_step (sub_input (sub_cancelled s) w) (sub_phase s) in
      s\<lparr>sub_phase := p,
        sub_attempts := (if sub_phase s = SsePausing \<and> p = SseConnecting then Suc (sub_attempts s) else sub_attempts s)\<rparr>)"

inductive sub_run :: "'url sse_subscription \<Rightarrow> sub_wake list \<Rightarrow> 'url sse_subscription \<Rightarrow> bool" where
  "sub_run s [] s"
| "sub_ready s w \<Longrightarrow> sub_run (sub_step w s) ws s' \<Longrightarrow> sub_run s (w # ws) s'"

inductive_cases sub_run_NilE: "sub_run s [] s'"
inductive_cases sub_run_ConsE: "sub_run s (w # ws) s'"

lemma sub_step_cancelled [simp]: "sub_cancelled (sub_step w s) = sub_cancelled s"
  by (simp add: sub_step_def Let_def)

text \<open>Until it is dropped, the loop does not stop.\<close>

lemma sub_run_live:
  "sub_run s ws s' \<Longrightarrow> \<not> sub_cancelled s \<Longrightarrow> sub_phase s \<noteq> SseStopped \<Longrightarrow> sub_phase s' \<noteq> SseStopped"
proof (induction rule: sub_run.induct)
  case (2 s w ws s')
  then have "sub_phase (sub_step w s) \<noteq> SseStopped" by (cases w) (auto simp: sub_step_def)
  with 2 show ?case by simp
qed simp

interpretation http_ep: endpoint_store "http_set_endpoint ul" http_clear_endpoint "http_endpoint ul"
    "\<lambda>u. map_option (ul_show ul) (ul_parse ul u)"
  for ul :: "'url url_lib"
  by unfold_locales (auto simp: http_set_endpoint_def http_clear_endpoint_def http_endpoint_def split: option.splits)

section \<open>What the operations keep\<close>

datatype 'e http_op = HSetEndpoint rstr | HClearEndpoint | HSendEvent "byte list" | HOnEvent 'e | HShutdown

fun http_do :: "'url url_lib \<Rightarrow> 'e http_op \<Rightarrow> ('cl, 'url, 'e) http_client \<Rightarrow> ('cl, 'url, 'e) http_client" where
  "http_do ul (HSetEndpoint u) c = snd (http_set_endpoint ul c u)"
| "http_do ul HClearEndpoint c = http_clear_endpoint c"
| "http_do ul (HSendEvent d) c = snd (http_send_event ul c d)"
| "http_do ul (HOnEvent h) c = http_on_event ul h c"
| "http_do ul HShutdown c = http_shutdown c"

lemmas http_ops = http_set_endpoint_def http_clear_endpoint_def http_send_event_def http_on_event_def
  http_shutdown_def

text \<open>
  No operation moves the published state: a client says \<open>Online\<close> from its construction on, with
  an endpoint or without.
\<close>

lemma http_client_new_Online: "http_client_new ul ph build cfg = Inr c \<Longrightarrow> h_state c = Online"
  by (cases "http_base ul cfg"; cases "http_auth_header ph cfg";
      cases "build (hc_request_timeout cfg) (projr (http_auth_header ph cfg))") (auto simp: http_client_new_def)

lemma http_state_kept: "h_state (fold (http_do ul) ops c) = h_state c"
proof (induction ops arbitrary: c)
  case (Cons op ops)
  have "h_state (http_do ul op c) = h_state c"
    by (cases op) (simp_all add: http_ops split: sum.splits option.splits)
  with Cons show ?case by simp
qed simp

text \<open>A spawned task keeps the URL it was spawned with, whatever becomes of the endpoint.\<close>

lemma http_tasks_kept: "\<exists>ts. h_tasks (fold (http_do ul) ops c) = h_tasks c @ ts"
proof (induction ops arbitrary: c)
  case (Cons op ops)
  have "\<exists>ts. h_tasks (http_do ul op c) = h_tasks c @ ts"
    by (cases op) (simp_all add: http_ops split: sum.splits option.splits)
  with Cons [of "http_do ul op c"] show ?case by auto
qed simp

text \<open>Without an endpoint a handler is dropped without a trace.\<close>

lemma http_on_event_without_endpoint: "h_base_url c = None \<Longrightarrow> http_on_event ul h c = c"
  by (simp add: http_on_event_def http_resolve_def)

section \<open>Properties\<close>

text \<open>
  After any history of \<open>set_endpoint\<close> and \<open>clear_endpoint\<close>, \<open>endpoint\<close> is the last valid
  URL set since the last clear, as the URL library prints it; a refused URL leaves the endpoint alone.
\<close>

theorem http_endpoint_history:
  "http_endpoint ul (run_ep (http_set_endpoint ul) http_clear_endpoint c ops)
   = last_ep (\<lambda>u. map_option (ul_show ul) (ul_parse ul u)) (http_endpoint ul c) ops"
  by (rule http_ep.endpoint_history)

text \<open>
  C40. Dropping a subscription stops its loop after at most two wake-ups, whichever the runtime
  picks, and with at most one more request.
\<close>

theorem dropped_subscription_stops:
  assumes "sub_run (drop_subscription s) ws s'"
  shows "length ws \<le> 2 \<and> sub_attempts s' \<le> Suc (sub_attempts s) \<and>
    (sub_phase s' = SseStopped \<or> (\<exists>w. sub_ready s' w))"
proof -
  let ?d = "drop_subscription s"
  have c: "sub_cancelled ?d" "sub_phase ?d = sub_phase s" "sub_attempts ?d = sub_attempts s"
    by (simp_all add: drop_subscription_def)
  have step: "sub_ready x w \<Longrightarrow> sub_cancelled x \<Longrightarrow>
      sub_phase (sub_step w x) = SseStopped \<and> sub_attempts (sub_step w x) = sub_attempts x \<or>
      sub_phase x = SsePausing \<and> sub_phase (sub_step w x) = SseConnecting \<and>
        sub_attempts (sub_step w x) = Suc (sub_attempts x)" for w and x :: "'a sse_subscription"
    by (cases w) (auto simp: sub_step_def)
  have stopped: "sub_phase x = SseStopped \<Longrightarrow> sub_run x us y \<Longrightarrow> us = [] \<and> y = x" for us and x y :: "'a sse_subscription"
    by (erule sub_run.cases) (auto elim: sub_ready.elims)
  have connecting: "sub_phase x = SseConnecting \<Longrightarrow> sub_cancelled x \<Longrightarrow> sub_run x us y \<Longrightarrow>
      length us \<le> 1 \<and> sub_attempts y = sub_attempts x \<and> (sub_phase y = SseStopped \<or> y = x)"
    for us and x y :: "'a sse_subscription"
    using step [of x] stopped by (auto elim!: sub_run.cases [of x us y]) blast+
  show ?thesis
    using assms
  proof (cases rule: sub_run.cases)
    case 1
    then show ?thesis using c by (cases "sub_phase s") (auto intro: exI [of _ SubCancel])
  next
    case (2 w us)
    from step [OF 2(2) c(1)] show ?thesis
    proof (elim disjE conjE)
      assume "sub_phase (sub_step w ?d) = SseStopped" "sub_attempts (sub_step w ?d) = sub_attempts ?d"
      with stopped [OF _ 2(3)] 2(1) c show ?thesis by simp
    next
      assume x: "sub_phase (sub_step w ?d) = SseConnecting" "sub_attempts (sub_step w ?d) = Suc (sub_attempts ?d)"
      from connecting [OF x(1) _ 2(3)] x 2(1) c show ?thesis
        by (auto intro: exI [of _ SubCancel])
    qed
  qed
qed

text \<open>One that was pausing between two connections.\<close>

lemma dropped_subscription_stops_witness:
  "\<exists>s'. sub_run (drop_subscription \<lparr>sub_url = (), sub_cancelled = False, sub_phase = SsePausing, sub_attempts = 1\<rparr>)
      [SubPauseOver, SubStreamEnd] s' \<and> sub_phase s' = SseStopped \<and> sub_attempts s' \<le> 2"
proof -
  let ?s = "\<lparr>sub_url = (), sub_cancelled = False, sub_phase = SsePausing, sub_attempts = 1\<rparr>"
  let ?e = "\<lparr>sub_url = (), sub_cancelled = True, sub_phase = SseStopped, sub_attempts = 2\<rparr>"
  have run: "sub_run (drop_subscription ?s) [SubPauseOver, SubStreamEnd] ?e"
    by (rule sub_run.intros; (rule sub_run.intros)?) (simp_all add: drop_subscription_def sub_step_def sub_run.intros numeral_2_eq_2)
  from dropped_subscription_stops [OF run] run show ?thesis by (intro exI [of _ ?e]) simp
qed

text \<open>
  A request returns bytes exactly when an endpoint is set, it joins with the path, the
  exchange succeeds with a 2xx status and the body is read; these are the bytes.  It goes out
  once, as a \<open>POST\<close> with the data, or not at all when the URL does not resolve.
\<close>

theorem http_request_outcome:
  "(fst (http_request ul send c w data) = Inr bytes \<longleftrightarrow>
     (\<exists>base url rs. h_base_url c = Some base \<and> ul_join ul base (lit ''/request'') = Some url \<and>
        fst (send w \<lparr>rq_method = Post, rq_url = url, rq_content_type = Some octet_stream, rq_body = data\<rparr>) = Inr rs \<and>
        200 \<le> rs_status rs \<and> rs_status rs \<le> 299 \<and> rs_body rs = Inr bytes)) \<and>
   snd (http_request ul send c w data) =
     (case http_resolve ul c (lit ''/request'') of
        Inl e \<Rightarrow> w
      | Inr url \<Rightarrow>
          snd (send w \<lparr>rq_method = Post, rq_url = url, rq_content_type = Some octet_stream, rq_body = data\<rparr>))"
  by (cases "h_base_url c"; cases "ul_join ul (the (h_base_url c)) (lit ''/request'')")
    (auto simp: http_request_def http_resolve_def http_exchange_def is_success_def split: prod.splits sum.splits)

end
