(* ===== verification/TransportImpls.thy ===== *)
theory TransportImpls
  imports Client Http
begin

text \<open>
  The trait \<open>Transport\<close> (\<open>src/transport.rs\<close>) as a record of operations, and its two
  implementations: \<open>src/ws/client/transport.rs\<close>, which delegates to \<open>WsClient\<close>, and
  \<open>src/http/transport.rs\<close>.  \<open>request\<close> suspends, and is modelled by each client's own steps
  (\<open>request_start\<close>, \<open>request_send\<close>, \<open>request_poll\<close>; \<open>http_request\<close>).  \<open>subscribe_state\<close> is the
  value its receiver reads.
\<close>

section \<open>The trait and its implementations\<close>

record ('s, 'e) transport_impl =
  ti_send_event :: "'s \<Rightarrow> byte list \<Rightarrow> message_priority \<Rightarrow> (transport_error + unit) \<times> 's"
  ti_on_event :: "'e \<Rightarrow> 's \<Rightarrow> 's"
  ti_state :: "'s \<Rightarrow> connection_state"
  ti_set_endpoint :: "'s \<Rightarrow> rstr \<Rightarrow> (transport_error + unit) \<times> 's"
  ti_clear_endpoint :: "'s \<Rightarrow> 's"
  ti_endpoint :: "'s \<Rightarrow> rstr option"
  ti_shutdown :: "'s \<Rightarrow> 's"

definition ws_transport :: "('c, client_cmd) mpsc_sender \<Rightarrow> (rstr \<Rightarrow> 'url option) \<Rightarrow> (('c, 'e) ws_client, 'e) transport_impl" where
  "ws_transport mp parse =
     \<lparr>ti_send_event = (\<lambda>c data priority. send_event mp data priority c),
      ti_on_event = on_event,
      ti_state = client_state,
      ti_set_endpoint = set_endpoint mp parse,
      ti_clear_endpoint = clear_endpoint mp,
      ti_endpoint = endpoint,
      ti_shutdown = shutdown\<rparr>"

text \<open>The HTTP client has no queue and ignores the priority.\<close>

definition http_transport :: "'url url_lib \<Rightarrow> (('cl, 'url, 'e) http_client, 'e) transport_impl" where
  "http_transport ul =
     \<lparr>ti_send_event = (\<lambda>c data priority. http_send_event ul c data),
      ti_on_event = http_on_event ul,
      ti_state = h_state,
      ti_set_endpoint = http_set_endpoint ul,
      ti_clear_endpoint = http_clear_endpoint,
      ti_endpoint = http_endpoint ul,
      ti_shutdown = http_shutdown\<rparr>"

section \<open>The endpoint, whichever the implementation\<close>

lemma last_ep_shown:
  "last_ep (\<lambda>u. map_option (ul_show ul) (ul_parse ul u)) (map_option g e) ops =
   map_option (\<lambda>u. ul_show ul (the (ul_parse ul u))) (last_ep (\<lambda>u. map_option (\<lambda>_. u) (ul_parse ul u)) e ops)"
  if "\<forall>u. e = Some u \<longrightarrow> g u = ul_show ul (the (ul_parse ul u))"
  using that
proof (induction ops arbitrary: e g)
  case Nil
  then show ?case by (cases e) simp_all
next
  case (Cons op ops)
  show ?case
  proof (cases op)
    case (SetEndpoint u)
    show ?thesis
    proof (cases "ul_parse ul u")
      case None
      with SetEndpoint Cons.IH [OF Cons.prems] show ?thesis by simp
    next
      case (Some url)
      with SetEndpoint Cons.IH [of "Some u" "\<lambda>_. ul_show ul url"] show ?thesis by simp
    qed
  next
    case ClearEndpoint
    with Cons.IH [of None g] show ?thesis by simp
  qed
qed

text \<open>
  C21. The two implementations of the trait agree on the endpoint: after the same history of
  \<open>set_endpoint\<close> and \<open>clear_endpoint\<close> calls on clients without one, either both have an endpoint or
  neither, and the HTTP client's is the WebSocket client's as the URL library prints it.
\<close>

theorem transports_agree_on_endpoint:
  fixes c :: "('c, 'e) ws_client" and h :: "('cl, 'url, 'e) http_client"
  assumes "ti_endpoint (ws_transport mp (ul_parse ul)) c = None" "ti_endpoint (http_transport ul) h = None"
  shows "ti_endpoint (http_transport ul)
      (run_ep (ti_set_endpoint (http_transport ul)) (ti_clear_endpoint (http_transport ul)) h ops) =
    map_option (\<lambda>u. ul_show ul (the (ul_parse ul u)))
      (ti_endpoint (ws_transport mp (ul_parse ul))
        (run_ep (ti_set_endpoint (ws_transport mp (ul_parse ul))) (ti_clear_endpoint (ws_transport mp (ul_parse ul))) c ops))"
proof -
  have "http_endpoint ul h = None" "endpoint c = None"
    using assms by (simp_all add: ws_transport_def http_transport_def)
  then show ?thesis
    using last_ep_shown [of None undefined ul ops]
    by (simp add: ws_transport_def http_transport_def http_ep.endpoint_history ws_ep.endpoint_history)
qed

text \<open>A URL library that reads any text but the empty one and appends a slash when it prints.\<close>

definition sample_url :: "rstr url_lib" where
  "sample_url = \<lparr>ul_parse = (\<lambda>u. if u = [] then None else Some u), ul_join = (\<lambda>b p. Some (b @ p)), ul_show = (\<lambda>u. u @ [47])\<rparr>"

definition sample_http :: "(unit, rstr, nat) http_client" where
  "sample_http = \<lparr>h_client = (), h_base_url = None, h_config = http_client_config_new [], h_state = Online,
     h_cancelled = False, h_tasks = []\<rparr>"

lemma transports_agree_on_endpoint_witness:
  "ti_endpoint (http_transport sample_url)
      (run_ep (ti_set_endpoint (http_transport sample_url)) (ti_clear_endpoint (http_transport sample_url)) sample_http
        [SetEndpoint [1], ClearEndpoint, SetEndpoint [2], SetEndpoint []]) = Some [2, 47]"
proof -
  let ?c = "ws_client_new (\<lambda>_. []) sample_client_config :: (client_cmd list, nat) ws_client"
  have "ti_endpoint (ws_transport list_sender (ul_parse sample_url)) ?c = None"
    "ti_endpoint (http_transport sample_url) sample_http = None"
    by (simp_all add: ws_transport_def http_transport_def ws_client_new_def endpoint_def http_endpoint_def sample_http_def)
  note agree = transports_agree_on_endpoint [OF this, of "[SetEndpoint [1], ClearEndpoint, SetEndpoint [2], SetEndpoint []]"]
  have "ti_endpoint (ws_transport list_sender (ul_parse sample_url))
      (run_ep (ti_set_endpoint (ws_transport list_sender (ul_parse sample_url)))
        (ti_clear_endpoint (ws_transport list_sender (ul_parse sample_url))) ?c
        [SetEndpoint [1], ClearEndpoint, SetEndpoint [2], SetEndpoint []]) = Some [2]"
    by (simp add: ws_transport_def set_endpoint_def clear_endpoint_def notify_def endpoint_def sample_url_def)
  then show ?thesis unfolding agree by (simp add: sample_url_def)
qed

end
