(* ===== verification/SsePush.thy ===== *)
theory SsePush
  imports Sse State
begin

text \<open>
  \<open>src/http/sse.rs\<close>: the pair of emitter and response a handler creates, the error response,
  and what the emitter's events become at the client.  Parameters: tokio's unbounded channel,
  axum's conversion of a stream into a response, and axum's printing of an event.
\<close>

section \<open>Emitter and response\<close>

record keep_alive =
  ka_interval :: duration
  ka_text :: rstr

text \<open>
  \<open>unbounded\<close> is the fresh channel, sender and receiver; \<open>respond\<close> turns the receiver's stream
  with the keep-alive setting into a response.
\<close>

definition sse_pair :: "'tx \<times> 'rx \<Rightarrow> ('rx \<Rightarrow> keep_alive \<Rightarrow> 'resp) \<Rightarrow> 'tx \<times> 'resp" where
  "sse_pair unbounded respond =
     (case unbounded of (tx, rx) \<Rightarrow>
        (tx, respond rx \<lparr>ka_interval = from_secs 15, ka_text = lit ''keep-alive''\<rparr>))"

definition sse_error :: "('st \<Rightarrow> rstr \<Rightarrow> 'resp) \<Rightarrow> 'st \<Rightarrow> rstr \<Rightarrow> 'resp" where
  "sse_error into_response status message = into_response status message"

text \<open>Events sent one after the other; \<open>None\<close> is a panic of the event builder.\<close>

fun emit_all :: "('c, 'ev) sse_sender \<Rightarrow> (rstr \<Rightarrow> rstr \<Rightarrow> 'ev option) \<Rightarrow> 'c \<Rightarrow> (rstr \<times> rstr) list \<Rightarrow>
    ((transport_error + unit) list \<times> 'c) option" where
  "emit_all us build tx [] = Some ([], tx)"
| "emit_all us build tx ((ev, data) # es) =
     (case emitter_send us build tx ev data of
        None \<Rightarrow> None
      | Some (r, tx1) \<Rightarrow> map_option (apfst ((#) r)) (emit_all us build tx1 es))"

section \<open>The body of the response\<close>

text \<open>
  A comment that keeps the connection open, as the SSE standard writes it; the body is made of
  events, which axum prints with \<open>print\<close>, and of comments between them.
\<close>

definition comment_text :: "keep_alive \<Rightarrow> rstr" where
  "comment_text ka = 58 # 32 # ka_text ka @ [10, 10]"

definition piece_text :: "('ev \<Rightarrow> rstr) \<Rightarrow> keep_alive \<Rightarrow> 'ev option \<Rightarrow> rstr" where
  "piece_text print ka p = (case p of None \<Rightarrow> comment_text ka | Some e \<Rightarrow> print e)"

lemma chomp_comment: "chomp (58 # x @ [10]) = 58 # chomp x"
  by (induction x rule: rev_induct) (simp_all add: chomp_def trim_end_while_def dropWhile_append)

lemma sse_line_comment: "sse_line (58 # x) s = s"
  by (simp add: sse_line_def lit_def)

lemma sse_lines_comment:
  assumes "sse_idle s" "10 \<notin> set (ka_text ka)"
  shows "sse_lines (comment_text ka @ rest) s = sse_lines rest s"
proof -
  have "sse_lines (58 # 32 # ka_text ka @ 10 # 10 # rest) s = sse_lines (10 # rest) s"
    using sse_lines_line [of "58 # 32 # ka_text ka" "10 # rest" s] assms(2)
    by (simp add: sse_line_comment chomp_comment [of "32 # ka_text ka", simplified])
  also have "\<dots> = sse_lines rest s"
    using sse_lines_line [of "[]" rest s] assms(1) by (simp add: chomp_blank sse_line_def sse_idle_def)
  finally show ?thesis by (simp add: comment_text_def)
qed

text \<open>Whatever comments are in between, the events come out.\<close>

lemma sse_lines_pieces:
  assumes "10 \<notin> set (ka_text ka)"
  shows "sse_idle s \<Longrightarrow> list_all2 (\<lambda>e w. print e = sse_wire w \<and> sse_event_ok w) (List.map_filter (\<lambda>p. p) ps) ws \<Longrightarrow>
    sse_lines (concat (map (piece_text print ka) ps)) s = s\<lparr>events := events s @ map sse_meaning ws, leftover := []\<rparr>"
proof (induction ps arbitrary: s ws)
  case Nil
  then show ?case by (simp add: sse_lines_none)
next
  case (Cons p ps)
  show ?case
  proof (cases p)
    case None
    with Cons show ?thesis by (simp add: piece_text_def sse_lines_comment assms)
  next
    case (Some e)
    with Cons.prems(2) obtain w ws' where w: "ws = w # ws'" "print e = sse_wire w" "sse_event_ok w"
      "list_all2 (\<lambda>e w. print e = sse_wire w \<and> sse_event_ok w) (List.map_filter (\<lambda>p. p) ps) ws'"
      by (auto simp: list_all2_Cons1)
    have "sse_idle (s\<lparr>events := events s @ [sse_meaning w]\<rparr>)" using Cons.prems(1) by (simp add: sse_idle_def)
    from Cons.IH [OF this w(4)] Some w Cons.prems(1) show ?thesis
      by (simp add: piece_text_def sse_lines_wire)
  qed
qed

lemma connect_sse_text:
  assumes "\<forall>t \<in> set texts. \<forall>c \<in> set t. scalar c" "is_success status"
  shows "connect_sse (Inr (status, line, map (Inr \<circ> utf8_bytes) texts)) = (Inr (), sse_lines (concat texts) sse_new)"
proof -
  have "leftover sse_new = []" by (simp add: sse_new_def)
  with assms(1) have "sse_stream (map (Inr \<circ> utf8_bytes) texts) sse_new = (Inr (), sse_text (concat texts) sse_new)"
    by (intro sse_stream_texts) simp_all
  with assms(2) show ?thesis by (simp add: connect_sse_def sse_text_def sse_new_def)
qed

text \<open>On a channel whose receiver lives, every event that the builder makes is queued.\<close>

lemma emit_all_queued:
  assumes channel: "\<forall>tx e. \<exists>tx'. us_send us tx e = (True, tx') \<and> queued tx' = queued tx @ [e]"
  shows "\<forall>(ev, d) \<in> set es. build ev d \<noteq> None \<Longrightarrow>
    \<exists>tx'. emit_all us build tx es = Some (replicate (length es) (Inr ()), tx') \<and>
      queued tx' = queued tx @ map (\<lambda>(ev, d). the (build ev d)) es"
proof (induction es arbitrary: tx)
  case (Cons x es)
  obtain ev d where x: "x = (ev, d)" by fastforce
  with Cons.prems obtain e where e: "build ev d = Some e" by auto
  from channel obtain tx1 where tx1: "us_send us tx e = (True, tx1)" "queued tx1 = queued tx @ [e]" by blast
  from Cons.IH [of tx1] Cons.prems obtain tx' where
    "emit_all us build tx1 es = Some (replicate (length es) (Inr ()), tx')"
    "queued tx' = queued tx1 @ map (\<lambda>(ev, d). the (build ev d)) es" by auto
  with x e tx1 show ?case by (simp add: emitter_send_def)
qed simp

section \<open>Property\<close>

text \<open>
  C16. What a server pushes, its subscriber's handler gets: events sent through an emitter of
  \<open>sse_pair\<close>, each line free of surrounding white space, reach the handler of a client that
  reads the response's body, each once, in order, with its type and its data, wherever the
  keep-alive comments fall between them and however the body is cut between characters.
\<close>

theorem pushed_events_reach_handler:
  assumes pair: "sse_pair (tx, rx) Pair = (tx0, rx0, ka)" "queued tx = []"
    and channel: "\<forall>tx e. \<exists>tx'. us_send us tx e = (True, tx') \<and> queued tx' = queued tx @ [e]"
    and axum: "\<forall>ev ls e. ls \<noteq> [] \<and> (\<forall>l \<in> set ls. 10 \<notin> set l) \<and> build ev (join_lines ls) = Some e \<longrightarrow>
      print e = sse_wire (Some ev, ls)"
    and evs: "\<forall>(ev, ls) \<in> set evs. sse_event_ok (Some ev, ls) \<and> build ev (join_lines ls) \<noteq> None"
  shows "\<exists>tx'. emit_all us build tx0 (map (apsnd join_lines) evs) = Some (replicate (length evs) (Inr ()), tx') \<and>
    (\<forall>ps texts status line. List.map_filter (\<lambda>p. p) ps = queued tx' \<and> concat texts = concat (map (piece_text print ka) ps) \<and>
        (\<forall>t \<in> set texts. \<forall>c \<in> set t. scalar c) \<and> is_success status \<longrightarrow>
      connect_sse (Inr (status, line, map (Inr \<circ> utf8_bytes) texts)) =
        (Inr (), sse_new\<lparr>events := map (apsnd join_lines) evs\<rparr>))"
proof -
  from pair(1) have tx0: "tx0 = tx" and ka: "10 \<notin> set (ka_text ka)" by (auto simp: sse_pair_def lit_def)
  have "\<forall>(ev, d) \<in> set (map (apsnd join_lines) evs). build ev d \<noteq> None" using evs by fastforce
  from emit_all_queued [OF channel this, of tx] pair(2) obtain tx' where
    sent: "emit_all us build tx (map (apsnd join_lines) evs) = Some (replicate (length evs) (Inr ()), tx')"
      "queued tx' = map (\<lambda>(ev, d). the (build ev d)) (map (apsnd join_lines) evs)" by auto
  have wire: "print (the (build ev (join_lines ls))) = sse_wire (Some ev, ls) \<and> sse_event_ok (Some ev, ls)"
    if "(ev, ls) \<in> set evs" for ev ls
  proof -
    from evs that have ok: "sse_event_ok (Some ev, ls)" and "build ev (join_lines ls) \<noteq> None" by auto
    then obtain e where e: "build ev (join_lines ls) = Some e" by auto
    from ok have "ls \<noteq> []" "\<forall>l \<in> set ls. 10 \<notin> set l" by (auto simp: sse_event_ok_def list_all_iff line_value_def)
    with axum e ok show ?thesis by simp
  qed
  have wires: "list_all2 (\<lambda>e w. print e = sse_wire w \<and> sse_event_ok w) (queued tx') (map (apfst Some) evs)"
    using wire unfolding sent(2) by (auto simp: list_all2_map1 list_all2_map2 intro!: list.rel_refl_strong)
  have meaning: "map sse_meaning (map (apfst Some) evs) = map (apsnd join_lines) evs"
    by (auto simp: sse_meaning_def)
  have "sse_idle sse_new" by (simp add: sse_idle_def sse_new_def)
  have all: "sse_lines (concat (map (piece_text print ka) ps)) sse_new = sse_new\<lparr>events := map (apsnd join_lines) evs\<rparr>"
    if "List.map_filter (\<lambda>p. p) ps = queued tx'" for ps
    using sse_lines_pieces [OF ka \<open>sse_idle sse_new\<close>, of print ps "map (apfst Some) evs"] wires that
    unfolding meaning by (simp add: sse_new_def)
  show ?thesis
  proof (intro exI [of _ tx'] conjI allI impI)
    show "emit_all us build tx0 (map (apsnd join_lines) evs) = Some (replicate (length evs) (Inr ()), tx')"
      using sent(1) tx0 by simp
  next
    fix ps texts status line
    assume *: "List.map_filter (\<lambda>p. p) ps = queued tx' \<and> concat texts = concat (map (piece_text print ka) ps) \<and>
        (\<forall>t \<in> set texts. \<forall>c \<in> set t. scalar c) \<and> is_success status"
    with connect_sse_text [of texts status line] all [of ps] show
      "connect_sse (Inr (status, line, map (Inr \<circ> utf8_bytes) texts)) = (Inr (), sse_new\<lparr>events := map (apsnd join_lines) evs\<rparr>)"
      by simp
  qed
qed

definition open_us :: "((rstr \<times> rstr) list, rstr \<times> rstr) sse_sender" where
  "open_us = \<lparr>us_send = (\<lambda>q e. (True, q @ [e])), us_is_closed = (\<lambda>_. False)\<rparr>"

definition plain_event :: "rstr \<Rightarrow> rstr \<Rightarrow> (rstr \<times> rstr) option" where
  "plain_event ev d = (if 10 \<in> set d then None else Some (ev, d))"

definition plain_print :: "rstr \<times> rstr \<Rightarrow> rstr" where
  "plain_print = (\<lambda>(ev, d). sse_wire (Some ev, [d]))"

theorem pushed_events_reach_handler_witness:
  "\<exists>tx'. emit_all open_us plain_event [] [(lit ''status'', lit ''on''), (lit ''level'', lit ''7'')] = Some ([Inr (), Inr ()], tx') \<and>
    connect_sse (Inr (200, lit ''200 OK'', map (Inr \<circ> utf8_bytes)
        [lit ''event: status'' @ [10] @ lit ''data: on'' @ [10, 10] @ lit '': keep'', lit ''-alive'' @ [10, 10] @ lit ''event: level'' @ [10] @ lit ''data: 7'' @ [10, 10]])) =
      (Inr (), sse_new\<lparr>events := [(lit ''status'', lit ''on''), (lit ''level'', lit ''7'')]\<rparr>)"
proof -
  let ?evs = "[(lit ''status'', [lit ''on'']), (lit ''level'', [lit ''7''])]"
  let ?ps = "[Some (lit ''status'', lit ''on''), None, Some (lit ''level'', lit ''7'')]"
  let ?texts = "[lit ''event: status'' @ [10] @ lit ''data: on'' @ [10, 10] @ lit '': keep'',
    lit ''-alive'' @ [10, 10] @ lit ''event: level'' @ [10] @ lit ''data: 7'' @ [10, 10]]"
  let ?ka = "\<lparr>ka_interval = from_secs 15, ka_text = lit ''keep-alive''\<rparr>"
  have pair: "sse_pair ([] :: (rstr \<times> rstr) list, ()) Pair = ([], (), ?ka)" "(\<lambda>q. q) ([] :: (rstr \<times> rstr) list) = []"
    by (simp_all add: sse_pair_def)
  have channel: "\<forall>tx e. \<exists>tx'. us_send open_us tx e = (True, tx') \<and> (\<lambda>q. q) tx' = (\<lambda>q. q) tx @ [e]"
    by (simp add: open_us_def)
  have axum: "\<forall>ev ls e. ls \<noteq> [] \<and> (\<forall>l \<in> set ls. 10 \<notin> set l) \<and> plain_event ev (join_lines ls) = Some e \<longrightarrow>
      plain_print e = sse_wire (Some ev, ls)"
  proof (intro allI impI)
    fix ev ls e
    assume *: "ls \<noteq> [] \<and> (\<forall>l \<in> set ls. 10 \<notin> set l) \<and> plain_event ev (join_lines ls) = Some e"
    then have "10 \<notin> set (join_lines ls)" "e = (ev, join_lines ls)" by (auto simp: plain_event_def split: if_splits)
    with * show "plain_print e = sse_wire (Some ev, ls)" by (cases ls rule: join_lines.cases) (simp_all add: plain_print_def)
  qed
  have evs: "\<forall>(ev, ls) \<in> set ?evs. sse_event_ok (Some ev, ls) \<and> plain_event ev (join_lines ls) \<noteq> None"
    by (simp add: sse_event_ok_def line_value_def lit_def trim_def trim_end_while_def is_whitespace_def plain_event_def)
  from pushed_events_reach_handler [OF pair channel axum evs] obtain tx' where
    sent: "emit_all open_us plain_event [] (map (apsnd join_lines) ?evs) = Some (replicate (length ?evs) (Inr ()), tx')"
    and body: "\<And>ps texts status line. List.map_filter (\<lambda>p. p) ps = tx' \<Longrightarrow> concat texts = concat (map (piece_text plain_print ?ka) ps) \<Longrightarrow>
        \<forall>t \<in> set texts. \<forall>c \<in> set t. scalar c \<Longrightarrow> is_success status \<Longrightarrow>
      connect_sse (Inr (status, line, map (Inr \<circ> utf8_bytes) texts)) = (Inr (), sse_new\<lparr>events := map (apsnd join_lines) ?evs\<rparr>)"
    by blast
  have "tx' = [(lit ''status'', lit ''on''), (lit ''level'', lit ''7'')]"
    using sent by (simp add: emitter_send_def plain_event_def open_us_def lit_def)
  then have "List.map_filter (\<lambda>p. p) ?ps = tx'" by (simp add: List.map_filter_simps)
  moreover have "concat ?texts = concat (map (piece_text plain_print ?ka) ?ps)"
    by (simp add: piece_text_def plain_print_def sse_wire_def comment_text_def lit_def)
  moreover have "\<forall>t \<in> set ?texts. \<forall>c \<in> set t. scalar c" by (simp add: lit_def scalar_def)
  moreover have "is_success 200" by (simp add: is_success_def)
  ultimately have "connect_sse (Inr (200, lit ''200 OK'', map (Inr \<circ> utf8_bytes) ?texts)) =
      (Inr (), sse_new\<lparr>events := map (apsnd join_lines) ?evs\<rparr>)" by (rule body)
  with sent show ?thesis by (simp del: emit_all.simps)
qed

end
