(* ===== verification/Runtime.thy ===== *)
theory Runtime
  imports Heartbeat Client
begin

text \<open>
  \<open>src/runtime.rs\<close> on wasm, where the crate supplies \<open>sleep_until\<close> and \<open>timeout\<close> itself (elsewhere
  they are tokio's).  Time is a number.  A sleep is the time it takes; a future is when it is
  ready and with what, or \<open>None\<close> if it never is.
\<close>

text \<open>The sleep that is awaited, if any, and the time at which \<open>sleep_until\<close> returns.\<close>

definition wasm_sleep_until :: "nat \<Rightarrow> nat \<Rightarrow> nat option" where
  "wasm_sleep_until now deadline = (if now < deadline then Some (deadline - now) else None)"

definition wakes_at :: "nat \<Rightarrow> nat \<Rightarrow> nat" where
  "wakes_at now deadline = now + (case wasm_sleep_until now deadline of None \<Rightarrow> 0 | Some d \<Rightarrow> d)"

text \<open>
  The race of \<open>timeout\<close>: \<open>select!\<close> takes the branch that is ready first, and when both are ready
  at one poll the one it picks at random, \<open>prefer_future\<close>.
\<close>

datatype elapsed = Elapsed

definition wasm_timeout :: "bool \<Rightarrow> nat \<Rightarrow> (nat \<times> 'a) option \<Rightarrow> elapsed + 'a" where
  "wasm_timeout prefer_future duration fut =
     (case fut of
        None \<Rightarrow> Inl Elapsed
      | Some (t, x) \<Rightarrow> if t < duration \<or> t = duration \<and> prefer_future then Inr x else Inl Elapsed)"

text \<open>
  A heartbeat timer armed with \<open>sleep_until\<close> never fires before its deadline, which is what the
  heartbeat contract asks of it; and it fires at the deadline unless that has passed already.
\<close>

lemma wakes_at_eq: "wakes_at now deadline = max now deadline"
  by (simp add: wakes_at_def wasm_sleep_until_def)

lemma sleep_until_on_time: "on_time deadline (Beat (wakes_at now deadline))"
  by (simp add: wakes_at_eq)

text \<open>A future that is ready before the time is up is returned, one that is not ready by then is not.\<close>

lemma wasm_timeout_in_time: "t < duration \<Longrightarrow> wasm_timeout prefer duration (Some (t, x)) = Inr x"
  by (simp add: wasm_timeout_def)

lemma wasm_timeout_too_late: "(\<And>t x. fut = Some (t, x) \<Longrightarrow> duration < t) \<Longrightarrow> wasm_timeout prefer duration fut = Inl Elapsed"
  by (cases fut) (auto simp: wasm_timeout_def)

lemma wasm_timeout_ok: "wasm_timeout prefer duration fut = Inr x \<longleftrightarrow>
    (\<exists>t. fut = Some (t, x) \<and> (t < duration \<or> t = duration \<and> prefer))"
  by (auto simp: wasm_timeout_def split: option.splits)

end
