(* ===== verification/Conformance.thy ===== *)
theory Conformance
  imports Frame Scheduler Handshake TransportImpls
begin

text \<open>
  The unit tests the repository keeps beside its code (\<open>src/frame.rs\<close>, \<open>src/scheduler.rs\<close>,
  \<open>src/crypto.rs\<close>, \<open>src/http/client.rs\<close>, \<open>tests/backoff_tests.rs\<close>), translated statement by
  statement and shown to pass on the model.  A test is \<open>True\<close> when no assertion and no \<open>unwrap\<close>
  of it fails.  So the model and the code were held against the same observations; where a
  library takes part the test passes for every library that keeps its law.
\<close>

section \<open>Frames\<close>

text \<open>\<open>unwrap\<close>, and what follows it.\<close>

definition unwrap_then :: "'e + 'a \<Rightarrow> ('a \<Rightarrow> bool) \<Rightarrow> bool" where
  "unwrap_then r k = (case r of Inl e \<Rightarrow> False | Inr x \<Rightarrow> k x)"

lemma unwrap_then_Inr [simp]: "unwrap_then (Inr x) k = k x"
  by (simp add: unwrap_then_def)

definition test_frame_encode_decode_round_trip :: "postcard \<Rightarrow> bool" where
  "test_frame_encode_decode_round_trip pc =
     (let f = \<lparr>f_id = 42, f_kind = Message, f_data = utf8_bytes (lit ''hello world'')\<rparr> in
      unwrap_then (encode_frame pc f) (\<lambda>encoded.
        unat (u32_from_le_bytes (take 4 encoded)) = length encoded - 4 \<and>
        unwrap_then (decode_frame pc (drop 4 encoded)) (\<lambda>decoded.
          f_id decoded = f_id f \<and> f_kind decoded = f_kind f \<and> f_data decoded = f_data f)))"

definition test_frame_accumulator_single_chunk :: "postcard \<Rightarrow> bool" where
  "test_frame_accumulator_single_chunk pc =
     (let f = \<lparr>f_id = 1, f_kind = Event, f_data = replicate 100 0xAA\<rparr> in
      unwrap_then (encode_frame pc f) (\<lambda>encoded.
        unwrap_then (fst (feed acc_new encoded 1024)) (\<lambda>res.
          case res of None \<Rightarrow> False | Some bytes \<Rightarrow>
            unwrap_then (decode_frame pc bytes) (\<lambda>decoded. f_id decoded = 1 \<and> length (f_data decoded) = 100))))"

text \<open>The slices of the test panic on an encoding of less than 150 bytes.\<close>

definition test_frame_accumulator_multiple_chunks :: "postcard \<Rightarrow> bool" where
  "test_frame_accumulator_multiple_chunks pc =
     (let f = \<lparr>f_id = 2, f_kind = Message, f_data = replicate 200 0xBB\<rparr> in
      unwrap_then (encode_frame pc f) (\<lambda>encoded.
        150 \<le> length encoded \<and>
        (case feed acc_new (take 50 encoded) 1024 of (r1, acc1) \<Rightarrow>
         case feed acc1 (take 100 (drop 50 encoded)) 1024 of (r2, acc2) \<Rightarrow>
         case feed acc2 (drop 150 encoded) 1024 of (r3, acc3) \<Rightarrow>
           r1 = Inr None \<and> r2 = Inr None \<and>
           unwrap_then r3 (\<lambda>final_res. case final_res of None \<Rightarrow> False | Some bytes \<Rightarrow>
             unwrap_then (decode_frame pc bytes) (\<lambda>decoded. f_id decoded = 2 \<and> length (f_data decoded) = 200)))))"

definition test_frame_accumulator_payload_too_large :: bool where
  "test_frame_accumulator_payload_too_large =
     (\<not> is_ok (fst (feed acc_new (u32_to_le_bytes 5000 @ drop 4 (replicate 10 0)) 1000)))"

definition test_frame_accumulator_too_short :: bool where
  "test_frame_accumulator_too_short = (\<not> is_ok (fst (feed acc_new [0, 1] 1000)))"

lemma frame_encoding:
  assumes "postcard_ok pc" "frame_fits pc m f"
  obtains p where "encode_frame pc f = Inr (u32_to_le_bytes (of_nat (length p)) @ p)" "decode_frame pc p = Inr f"
    "length p < 2 ^ 32" "length p \<le> m" "to_stdvec pc f = Inr p"
  using assms by (auto simp: frame_fits_def encode_frame_def decode_encoded_payload)

lemma unat_length: "length p < 2 ^ 32 \<Longrightarrow> unat (of_nat (length p) :: u32) = length p"
  by (simp add: unat_of_nat take_bit_nat_eq_self)

lemma round_trip_passes:
  assumes "postcard_ok pc" "frame_fits pc m \<lparr>f_id = 42, f_kind = Message, f_data = utf8_bytes (lit ''hello world'')\<rparr>"
  shows "test_frame_encode_decode_round_trip pc"
proof -
  let ?f = "\<lparr>f_id = 42, f_kind = Message, f_data = utf8_bytes (lit ''hello world'')\<rparr>"
  from frame_encoding [OF assms] obtain p where
    "encode_frame pc ?f = Inr (u32_to_le_bytes (of_nat (length p)) @ p)" "decode_frame pc p = Inr ?f" "length p < 2 ^ 32" .
  then show ?thesis
    unfolding test_frame_encode_decode_round_trip_def Let_def by (simp add: unat_length)
qed

lemma single_chunk_passes:
  assumes "postcard_ok pc" "frame_fits pc 1024 \<lparr>f_id = 1, f_kind = Event, f_data = replicate 100 0xAA\<rparr>"
  shows "test_frame_accumulator_single_chunk pc"
proof -
  from frame_encoding [OF assms] obtain p where p:
    "encode_frame pc \<lparr>f_id = 1, f_kind = Event, f_data = replicate 100 0xAA\<rparr> = Inr (u32_to_le_bytes (of_nat (length p)) @ p)"
    "decode_frame pc p = Inr \<lparr>f_id = 1, f_kind = Event, f_data = replicate 100 0xAA\<rparr>" "length p < 2 ^ 32" "length p \<le> 1024" .
  then show ?thesis
    by (simp add: test_frame_accumulator_single_chunk_def Let_def feed_def acc_new_def unat_length feed_finish_def)
qed

lemma multiple_chunks_passes:
  assumes "postcard_ok pc" "frame_fits pc 1024 \<lparr>f_id = 2, f_kind = Message, f_data = replicate 200 0xBB\<rparr>"
    and "\<And>bs. to_stdvec pc \<lparr>f_id = 2, f_kind = Message, f_data = replicate 200 0xBB\<rparr> = Inr bs \<Longrightarrow> 200 \<le> length bs"
  shows "test_frame_accumulator_multiple_chunks pc"
proof -
  let ?f = "\<lparr>f_id = 2, f_kind = Message, f_data = replicate 200 0xBB\<rparr> :: frame"
  from frame_encoding [OF assms(1,2)] obtain p where p:
    "encode_frame pc ?f = Inr (u32_to_le_bytes (of_nat (length p)) @ p)" "decode_frame pc p = Inr ?f"
    "length p < 2 ^ 32" "length p \<le> 1024" "to_stdvec pc ?f = Inr p" .
  let ?e = "u32_to_le_bytes (of_nat (length p)) @ p"
  from assms(3) p(5) have n: "200 \<le> length p" .
  then have "p \<noteq> []" by auto
  have 1: "feed acc_new (take 50 ?e) 1024 = (Inr None, \<lparr>expected_len = length p, buffer = take 46 p\<rparr>)"
    using p(3,4) n by (simp add: feed_def acc_new_def unat_length feed_finish_def)
  have 2: "feed \<lparr>expected_len = length p, buffer = take 46 p\<rparr> (take 100 (drop 50 ?e)) 1024 =
      (Inr None, \<lparr>expected_len = length p, buffer = take 146 p\<rparr>)"
    using n \<open>p \<noteq> []\<close> by (simp add: feed_def feed_finish_def take_add [of 46 100, simplified])
  have 3: "feed \<lparr>expected_len = length p, buffer = take 146 p\<rparr> (drop 150 ?e) 1024 = (Inr (Some p), acc_new)"
    using p(4) n \<open>p \<noteq> []\<close> by (auto simp: feed_def feed_finish_def acc_new_def)
  show ?thesis
    using p(1,2) n 1 2 3 by (simp add: test_frame_accumulator_multiple_chunks_def Let_def)
qed

lemma refusals_pass: "test_frame_accumulator_payload_too_large" "test_frame_accumulator_too_short"
proof -
  have "unat (u32_from_le_bytes (take 4 (u32_to_le_bytes 5000 @ drop 4 (replicate 10 0)))) = 5000" by simp
  then show "test_frame_accumulator_payload_too_large"
    by (simp add: test_frame_accumulator_payload_too_large_def feed_def acc_new_def)
  show "test_frame_accumulator_too_short"
    by (simp add: test_frame_accumulator_too_short_def feed_def acc_new_def)
qed

section \<open>The fair queue\<close>

fun enqueue_all :: "'a wfq \<Rightarrow> ('a \<times> message_priority) list \<Rightarrow> 'a wfq" where
  "enqueue_all s [] = s"
| "enqueue_all s ((x, p) # xs) = enqueue_all (enqueue s x p) xs"

text \<open>The results of so many calls of \<open>next\<close>.\<close>

fun next_calls :: "nat \<Rightarrow> 'a wfq \<Rightarrow> 'a option list" where
  "next_calls 0 s = []"
| "next_calls (Suc n) s = (case wfq_next s of (r, s1) \<Rightarrow> r # next_calls n s1)"

definition test_wfq_scheduler_empty :: bool where
  "test_wfq_scheduler_empty =
     (let scheduler = wfq_new :: int wfq in
      wfq_is_empty scheduler \<and> wfq_len scheduler = 0 \<and> fst (wfq_next scheduler) = None)"

definition test_wfq_scheduler_fifo_same_priority :: bool where
  "test_wfq_scheduler_fifo_same_priority =
     (let scheduler = enqueue (enqueue wfq_new (lit ''msg1'') Normal) (lit ''msg2'') Normal in
      wfq_len scheduler = 2 \<and> next_calls 3 scheduler = [Some (lit ''msg1''), Some (lit ''msg2''), None])"

definition test_wfq_scheduler_weights_distribution :: bool where
  "test_wfq_scheduler_weights_distribution =
     (let scheduler = enqueue_all wfq_new (concat (map (\<lambda>i.
            [(lit ''RT-'' @ show_nat i, RealTime), (lit ''N-'' @ show_nat i, Normal),
             (lit ''S-'' @ show_nat i, Stream), (lit ''B-'' @ show_nat i, Bulk)]) [0..<20]));
          popped = List.map_filter (\<lambda>item. item) (next_calls 15 scheduler) in
      length (filter (\<lambda>x. starts_with x (lit ''RT-'')) popped) = 8 \<and>
      length (filter (\<lambda>x. starts_with x (lit ''N-'')) popped) = 4 \<and>
      length (filter (\<lambda>x. starts_with x (lit ''S-'')) popped) = 2 \<and>
      length (filter (\<lambda>x. starts_with x (lit ''B-'')) popped) = 1)"

definition test_wfq_scheduler_no_starvation :: bool where
  "test_wfq_scheduler_no_starvation =
     (let scheduler = enqueue (enqueue wfq_new (lit ''stream1'') Stream) (lit ''bulk1'') Bulk in
      next_calls 3 scheduler = [Some (lit ''stream1''), Some (lit ''bulk1''), None])"

lemma scheduler_tests_pass:
  "test_wfq_scheduler_empty" "test_wfq_scheduler_fifo_same_priority" "test_wfq_scheduler_no_starvation"
  "test_wfq_scheduler_weights_distribution"
  by code_simp+

section \<open>Noise sessions\<close>

text \<open>The helper of the tests; \<open>None\<close> is a failed assertion.\<close>

definition perform_handshake :: "('h, 't) snow \<Rightarrow> ('h, 't) noise_session \<Rightarrow> ('h, 't) noise_session \<Rightarrow>
    (crypto_error + ('h, 't) noise_session \<times> ('h, 't) noise_session) option" where
  "perform_handshake sn client server =
     (case write_message sn client [] 65535 of
        (Inl e, _) \<Rightarrow> Some (Inl e)
      | (Inr m1, client1) \<Rightarrow>
     (case read_message sn server m1 65535 of
        (Inl e, _) \<Rightarrow> Some (Inl e)
      | (Inr _, server1) \<Rightarrow>
     (case write_message sn server1 [] 65535 of
        (Inl e, _) \<Rightarrow> Some (Inl e)
      | (Inr m2, server2) \<Rightarrow>
     (case read_message sn client1 m2 65535 of
        (Inl e, _) \<Rightarrow> Some (Inl e)
      | (Inr _, client2) \<Rightarrow>
     (case write_message sn client2 [] 65535 of
        (Inl e, _) \<Rightarrow> Some (Inl e)
      | (Inr m3, client3) \<Rightarrow>
     (case read_message sn server2 m3 65535 of
        (Inl e, _) \<Rightarrow> Some (Inl e)
      | (Inr _, server3) \<Rightarrow>
          if is_finished client3 \<and> is_finished server3 then Some (Inr (client3, server3)) else None))))))"

text \<open>What the two round-trip tests do with their payload; \<open>?\<close> is the bind.\<close>

definition round_trip :: "('h, 't) snow \<Rightarrow> ('p, 'b, 'h) snow_builder \<Rightarrow> byte list \<Rightarrow> (crypto_error + unit) option" where
  "round_trip sn sb plain =
     (case generate_keypair sb of
        Inl e \<Rightarrow> Some (Inl e)
      | Inr (server_priv, _) \<Rightarrow>
     (case noise_client sb None of
        Inl e \<Rightarrow> Some (Inl e)
      | Inr client \<Rightarrow>
     (case noise_server sb server_priv of
        Inl e \<Rightarrow> Some (Inl e)
      | Inr server \<Rightarrow>
     (case perform_handshake sn client server of
        None \<Rightarrow> None
      | Some (Inl e) \<Rightarrow> Some (Inl e)
      | Some (Inr (client1, server1)) \<Rightarrow>
     (case encrypt_chunked sn client1 plain of
        (Inl e, _) \<Rightarrow> Some (Inl e)
      | (Inr packets, _) \<Rightarrow>
     (case decrypt_chunked sn server1 packets of
        (Inl e, _) \<Rightarrow> Some (Inl e)
      | (Inr decrypted, _) \<Rightarrow> if decrypted = plain then Some (Inr ()) else None))))))"

definition round_trip_small_payload :: "('h, 't) snow \<Rightarrow> ('p, 'b, 'h) snow_builder \<Rightarrow> (crypto_error + unit) option" where
  "round_trip_small_payload sn sb = round_trip sn sb (utf8_bytes (lit ''hello noise world''))"

definition round_trip_large_payload :: "('h, 't) snow \<Rightarrow> ('p, 'b, 'h) snow_builder \<Rightarrow> (crypto_error + unit) option" where
  "round_trip_large_payload sn sb = round_trip sn sb (replicate 200000 0x42)"

text \<open>For every library that keeps its law, any payload passes that its nonces suffice for.\<close>

lemma round_trip_ok:
  fixes sn :: "('h, 't) snow"
  assumes "generate_keypair sb = Inr (priv, pub)"
    and "noise_client sb None = Inr (\<lparr>ns_state = Some (Handshake hi)\<rparr> :: ('h, 't) noise_session)"
    and "noise_server sb priv = Inr (\<lparr>ns_state = Some (Handshake hr)\<rparr> :: ('h, 't) noise_session)"
    and "snow_handshake_ok sn pair n hi hr" "snow_transport_ok sn pair" "(length plain + 65518) div 65519 \<le> n"
  shows "round_trip sn sb plain = Some (Inr ())"
proof -
  note steps = read_message_def write_message_def finish_handshake_def is_finished_def
  from assms(4) obtain ti tr where hs:
    "perform_handshake sn \<lparr>ns_state = Some (Handshake hi)\<rparr> \<lparr>ns_state = Some (Handshake hr)\<rparr> =
      Some (Inr (\<lparr>ns_state = Some (Transport ti)\<rparr>, \<lparr>ns_state = Some (Transport tr)\<rparr>))" "pair n ti tr"
    by (auto simp: snow_handshake_ok_def perform_handshake_def steps)
  then have "noise_paired sn pair n \<lparr>ns_state = Some (Transport ti)\<rparr> \<lparr>ns_state = Some (Transport tr)\<rparr>"
    using assms(5) by (simp add: noise_paired_def)
  moreover have "length (chunks max_chunk_plain plain) \<le> n"
    using assms(6) length_chunks [of max_chunk_plain plain] by (simp add: max_chunk_plain_def)
  ultimately obtain packets ns' nr' where
    "encrypt_chunked sn \<lparr>ns_state = Some (Transport ti)\<rparr> plain = (Inr packets, ns')"
    "try_map (decrypt_packet sn) \<lparr>ns_state = Some (Transport tr)\<rparr> packets = (Inr (chunks max_chunk_plain plain), nr')"
    using encrypt_chunked_paired by blast
  moreover have "concat (chunks max_chunk_plain plain) = plain" by (rule concat_chunks) (simp add: max_chunk_plain_def)
  ultimately show ?thesis by (simp add: round_trip_def assms(1-3) hs(1) decrypt_chunked_def)
qed

section \<open>The HTTP client's endpoint\<close>

definition test_http_client_endpoint_management ::
  "'url url_lib \<Rightarrow> (rstr \<Rightarrow> 'h option) \<Rightarrow> (duration \<Rightarrow> 'h option \<Rightarrow> rstr + 'cl) \<Rightarrow> bool" where
  "test_http_client_endpoint_management ul parse_header build =
     unwrap_then (http_client_new ul parse_header build (http_client_config_new []) ::
         transport_error + ('cl, 'url, unit) http_client) (\<lambda>client.
       http_endpoint ul client = None \<and> \<not> is_ok (http_resolve ul client (lit ''/api'')) \<and>
       (case http_set_endpoint ul client (lit ''http://127.0.0.1:8080'') of (r, client1) \<Rightarrow>
          is_ok r \<and> http_endpoint ul client1 = Some (lit ''http://127.0.0.1:8080/'') \<and>
          unwrap_then (http_resolve ul client1 (lit ''/api/v1'')) (\<lambda>u. ul_show ul u = lit ''http://127.0.0.1:8080/api/v1'') \<and>
          (let client2 = http_clear_endpoint client1 in
             http_endpoint ul client2 = None \<and> \<not> is_ok (http_resolve ul client2 (lit ''/api'')))))"

lemma endpoint_management_passes:
  assumes "build (from_secs 30) None = Inr cl"
    and "ul_parse ul (lit ''http://127.0.0.1:8080'') = Some base" "ul_show ul base = lit ''http://127.0.0.1:8080/''"
    and "ul_join ul base (lit ''/api/v1'') = Some u" "ul_show ul u = lit ''http://127.0.0.1:8080/api/v1''"
  shows "test_http_client_endpoint_management ul parse_header build"
  using assms by (simp add: test_http_client_endpoint_management_def http_client_new_def http_base_def http_auth_header_def
      http_client_config_new_def http_endpoint_def http_resolve_def http_set_endpoint_def http_clear_endpoint_def Let_def)

section \<open>Backoff\<close>

definition test_constant_backoff :: bool where
  "test_constant_backoff =
     (let strategy = constant_next_delay (constant_backoff_new (from_secs 5)) in
      strategy 0 = Some (from_secs 5) \<and> strategy 1 = Some (from_secs 5) \<and> strategy 10 = Some (from_secs 5))"

definition test_linear_backoff :: bool where
  "test_linear_backoff =
     (let strategy = linear_next_delay (linear_backoff_new (from_secs 2) (from_secs 3) (from_secs 10)) in
      map strategy [0, 1, 2, 3, 4, 10] = map (Some \<circ> from_secs) [0, 2, 5, 8, 10, 10])"

definition test_exponential_backoff :: bool where
  "test_exponential_backoff =
     (let strategy = exponential_next_delay (exponential_backoff_new (from_secs 2) (Fin 2) (from_secs 15)) in
      map strategy [0, 1, 2, 3, 4, 10] = map (Some \<circ> from_secs) [0, 2, 4, 8, 15, 15])"

lemma backoff_tests_pass: "test_constant_backoff" "test_linear_backoff" "test_exponential_backoff"
proof -
  show "test_constant_backoff" by (simp add: test_constant_backoff_def constant_next_delay_def constant_backoff_new_def)
  show "test_linear_backoff"
    by (simp add: test_linear_backoff_def linear_next_delay_def linear_backoff_new_def duration_mul_def duration_add_def duration_max_def
        from_secs_def nanos_per_sec_def)
  have "exponential_next_delay (exponential_backoff_new (from_secs 2) (Fin 2) (from_secs 15)) (of_nat n) =
      (if 1 + (n - 1) < 64 then Some (min (from_secs (2 ^ (1 + (n - 1)))) (from_secs 15)) else None)"
    if "0 < n" "n \<le> 2 ^ 31" for n
    using exponential_doubling [of 1 n "from_secs 15"] that by (simp add: exponential_backoff_new_def)
  from this [of 1] this [of 2] this [of 3] this [of 4] this [of 10] show "test_exponential_backoff"
    by (simp add: test_exponential_backoff_def from_secs_def nanos_per_sec_def) (simp add: exponential_next_delay_def from_secs_def)
qed

end
