(* ===== verification/Spec2Isabelle.thy ===== *)
theory Spec2Isabelle
  imports EdgeCases TransportImpls SsePush Runtime Conformance
begin

text \<open>
  A verification of \<open>notifiapp-transport\<close>, the transport layer the NotifiApp services share: an
  encrypted, prioritised request and event channel over WebSockets with a client that
  reconnects (the default), and an HTTP client with server-sent events (the fallback).  The
  features \<open>ws\<close>, \<open>crypto\<close> and \<open>http\<close> are on.  File names are relative to \<open>src/\<close>.

  \<^bold>\<open>How the program works.\<close>  An application calls \<open>WsClient::request\<close> (\<open>ws/client/mod.rs\<close>): the
  client takes an id, registers a one-shot channel under it and puts a command into a bounded
  channel.  A background task (\<open>ws/client/connection_loop.rs\<close>) opens the WebSocket, exchanges
  protocol versions, runs the Noise XX handshake, authenticates, and then loops: it takes
  commands into a weighted fair queue (\<open>scheduler.rs\<close>), encodes each frame with a length prefix
  (\<open>frame.rs\<close>), encrypts it in chunks (\<open>crypto.rs\<close>) and sends these; packets that arrive are
  decrypted, reassembled and dispatched to the waiting request or the event handler.  The
  server accepts with the mirror image of the handshakes (\<open>ws/server/mod.rs\<close>) and runs the
  same kind of loop (\<open>ws/server/session.rs\<close>), which hands frames to the application's inbox and
  sends what its handle (\<open>ws/server/handle.rs\<close>) is given.

  \<^bold>\<open>Which theory models what.\<close>
  \<^item> \<open>Prelude\<close>: machine words, Rust strings, results, chunks of slices, little-endian words.
  \<^item> \<open>Errors\<close>: \<open>error.rs\<close>.  \<open>Text\<close>: the methods of \<open>str\<close>, UTF-8, and \<open>utils.rs\<close>.
  \<^item> \<open>Frame\<close>: \<open>frame.rs\<close>; the stream of chunks as a contract (\<open>frame_split\<close>).
  \<^item> \<open>Scheduler\<close>: \<open>scheduler.rs\<close>; the queue's contract as a locale, its abstraction a multiset.
  \<^item> \<open>Crypto\<close>: \<open>crypto.rs\<close>; a locale for a channel of packets, interpreted on the session.
  \<^item> \<open>Float64\<close>, \<open>Backoff\<close>: binary64 with its rounding as far as \<open>Duration\<close> needs it, and
    \<open>ws/client/backoff.rs\<close>.
  \<^item> \<open>State\<close>: \<open>state.rs\<close>, \<open>auth.rs\<close>, \<open>ws/client/config.rs\<close>, \<open>ws/server/config.rs\<close>.
  \<^item> \<open>Wire\<close>: sending and receiving one frame on a socket, the code both loops share; the locale
    \<open>frame_channel\<close> says that what is packed on one side is received on the other.
  \<^item> \<open>Heartbeat\<close>: the heartbeat both loops implement, as a locale with its two theorems.
  \<^item> \<open>Transport\<close>: channel ends and the endpoint part of the trait, a locale.
  \<^item> \<open>Accept\<close>, \<open>Session\<close>: \<open>ws/server/mod.rs\<close>; \<open>ws/server/session.rs\<close> and \<open>ws/server/handle.rs\<close>.
  \<^item> \<open>WsStream\<close>: \<open>ws/client/stream.rs\<close>.  \<open>Connect\<close>: the client's handshakes and authentication.
  \<^item> \<open>Client\<close>: \<open>ws/client/mod.rs\<close> and \<open>ws/client/cmd.rs\<close>.
  \<^item> \<open>MsgLoop\<close>, \<open>ConnLoop\<close>: \<open>run_message_loop\<close> and \<open>connection_loop\<close>.
  \<^item> \<open>Exchange\<close>: requests, replies and events both ways through both loops.
  \<^item> \<open>Handshake\<close>: the handshakes of both sides against each other.  \<open>Login\<close>: a client going
    online against a server, or being turned away, from the hello to the message loop.
    \<open>LoginCases\<close>: the same without credentials, with another protocol or version, and with a
    failing Noise handshake.  \<open>EdgeCases\<close>: behaviours at the edges that a user should know.
  \<^item> \<open>Sse\<close>, \<open>Http\<close>: the SSE parser, its reconnect loop and \<open>http/sse.rs\<close>; the rest of
    \<open>http/client.rs\<close> and \<open>http/transport.rs\<close>.  \<open>SsePush\<close>: the emitters of \<open>http/sse.rs\<close>, and an
    event on its way from the emitter to the subscriber's handler.
  \<^item> \<open>TransportImpls\<close>: \<open>transport.rs\<close> as a record of operations, and its two implementations.
  \<^item> \<open>Runtime\<close>: the timers \<open>runtime.rs\<close> builds for wasm.
  \<^item> \<open>Conformance\<close>: the repository's unit tests, run on the definitions.
  \<^item> this theory: from the first hello to the last reply, and that the sending loops end.

  \<^bold>\<open>State and effects.\<close>  The locals of a loop are a record; one turn of a \<open>select!\<close> is an event,
  and the handler of an event gives the new state and whether the loop goes on.  Which event
  comes next is free, so that the theorems hold for every order the runtime picks.  A watch
  channel is the list of the values sent, a one-shot channel the state of its request, a
  \<open>DashMap\<close> a map.  A panic is \<open>None\<close>, or the phase \<open>Panicked\<close> of the connection loop.  Time is a
  number that the events carry.

  \<^bold>\<open>Parameters.\<close>  Code that is not part of the repository: \<open>snow\<close> (the record \<open>snow\<close> with the
  law \<open>snow_transport_ok\<close>: what one side seals the other opens, in order, as long as the nonces
  last), \<open>postcard\<close> (\<open>postcard_ok\<close>: decoding an encoding gives the value back), the WebSocket
  libraries (\<open>websocket\<close>), tokio's bounded channels (\<open>mpsc_sender\<close>), \<open>url\<close>, \<open>reqwest\<close>, axum's
  event builder and \<open>serde_json\<close>.  Every law has an instance, used by the witnesses.

  \<^bold>\<open>Bounds.\<close>  A flush loop of the server gets one turn more than there are frames queued, the
  client's one more than there are frames queued and commands still to arrive.  A loop whose
  turns run out is \<open>None\<close>, which no normal exit gives; with the turns they get both loops return,
  and more turns give the same result (\<open>server_flush_returns\<close>, \<open>ml_flush_returns\<close>,
  \<open>flush_loops_end\<close>), so that the branches for \<open>None\<close> in \<open>server_on_cmd\<close> and \<open>ml_on_cmd\<close> are never
  taken.  A conversation of the two loops (\<open>Exchange\<close>) is \<open>None\<close> once a turn of either loop is its
  last, and what it carries is what the other side wrote.  \<open>recv_one_frame\<close> gets as many turns as messages arrive
  before its timer fires.  All other recursions are structural or have a measure.

  \<^bold>\<open>What the lemmas show.\<close>  Round trips of frames, packets and events; that the handshakes agree
  and complete; that a frame handed to either loop reaches the other side's application once,
  in fair-queue order; shares and bounded waiting of the queue; correlation of responses with
  requests and that no request is forgotten; the life cycle of the published states; the
  heartbeat; what ends a wait; what \<open>shutdown\<close> reaches; what the two transports have in common.

  \<^bold>\<open>Not modelled.\<close>  \<open>spawn\<close> and \<open>sleep\<close> of \<open>runtime.rs\<close>, which pass their argument on, and its
  re-exports; \<open>lib.rs\<close> and the \<open>mod.rs\<close> files of \<open>ws\<close> and \<open>http\<close>, which declare modules; log
  output; the variants without \<open>crypto\<close>.  A send into a full inbox or command channel that
  blocks is taken as the send that follows it.  Overflow of an \<open>Instant\<close>, and of the attempt
  counter in a debug build, is out of reach of a running client and not modelled.
\<close>

section \<open>From the first hello to the last reply\<close>

text \<open>
  C1. The transport does what it is for.  A client about to open its endpoint and a server that can
  meet: if the server's application accepts the credentials, the client goes online, each side
  having read exactly what the other one wrote; and whatever the two applications then do one
  after the other, both loops keep running, each request returns the server's answer to it, the
  server's application sees the credentials and then exactly the client's requests and events,
  in order, and the client's event handler gets exactly the events the server pushed.
\<close>

theorem first_contact:
  fixes env :: "('h, 't, (rstr + client_message) list \<times> client_message list, 'c, 'p, 'b, 'u) conn_env"
    and s :: "('h, 't, (rstr + client_message) list \<times> client_message list, 'c, 'e, 'u) conn"
  assumes meet: "can_meet env sb scfg dup n"
    and parts: "pc = ce_postcard (cn_env env)" "sn = ce_snow (cn_env env)" "se = config_env sn pc script_socket scfg"
      "g = \<lparr>f_id = 1, f_kind = Message, f_data = reply\<rparr>" "first = cl_next_id (cn_client s)"
    and login: "frame_fits pc (sc_max_payload_bytes scfg) (auth_frame creds)"
      "frame_fits pc (cc_max_payload_bytes (ce_config (cn_env env))) g"
      "frame_cost pc g \<le> budget"
      "auth_payload (cn_auth env) (cn_user s) = (Some creds, u1)" "process_auth_response (cn_auth env) u1 reply = (Success, u2)"
    and start: "cn_phase s = Opening url" "pending_ok (cn_client s)"
    and talk: "\<forall>f \<in> set (asked first xs). (f_kind f = Message \<longrightarrow> 0 < f_id f) \<and> frame_fits pc (sc_max_payload_bytes scfg) f"
      "\<forall>f \<in> set (answered first xs). frame_fits pc (cc_max_payload_bytes (ce_config (cn_env env))) f"
    and nonces: "sum_list (map (frame_cost pc) (auth_frame creds # asked first xs)) \<le> n"
      "sum_list (map (frame_cost pc) (g # answered first xs)) \<le> n"
  shows "\<exists>c2s s2c h ns ps qs1 s1 s2 ml c' s3.
    accept_ws_session sn sb script_socket new_channel i scfg (map Inr (map native_message c2s), []) =
      (Inr (h, ns), [], map native_message s2c) \<and>
    run_turns (server_handle se) (map (\<lambda>_. WsReady now True) ps)
      (server_session_new se (map (\<lambda>p. Inr (MBinary p)) ps, []) ns now) = (Continue, s1) \<and>
    server_on_cmd se (SendFrame g q) s1 = (Continue, s2) \<and> ss_ws s2 = ([], map MBinary qs1) \<and>
    cn_phase (conn_step env (Opened (Inr (map Inr (s2c @ map Binary qs1), [])) budget t) s) = Running ml \<and>
    ml_ws ml = ([], c2s @ map Binary ps) \<and>
    conversation (cn_env env) se now xs (ml\<lparr>ml_ws := ([], [])\<rparr>, s2\<lparr>ss_ws := ([], [])\<rparr>) = Some (map (Some \<circ> Inr) (replies xs), c', s3) \<and>
    ss_inbox s3 = auth_frame creds # asked first xs \<and>
    cl_events (ml_client c') = cl_events (cn_client s) @ handled (cl_event_handler (cn_client s)) (pushed xs)"
proof -
  from meet have sock: "ce_socket (cn_env env) = script_socket" by (simp add: can_meet_def Let_def)
  from nonces have cost: "frame_cost pc (auth_frame creds) \<le> n" "frame_cost pc g \<le> n"
    and rest: "sum_list (map (frame_cost pc) (asked first xs)) \<le> n - frame_cost pc (auth_frame creds)"
      "sum_list (map (frame_cost pc) (answered first xs)) \<le> n - frame_cost pc g"
    by simp_all
  from login_online [OF meet parts(1-4) login(1,2) cost login(3-5) start(1), of new_channel i now q t]
  obtain c2s s2c h ns ps qs1 s1 s2 s' nc' where on:
    "accept_ws_session sn sb script_socket new_channel i scfg (map Inr (map native_message c2s), []) =
      (Inr (h, ns), [], map native_message s2c)"
    "run_turns (server_handle se) (map (\<lambda>_. WsReady now True) ps)
      (server_session_new se (map (\<lambda>p. Inr (MBinary p)) ps, []) ns now) = (Continue, s1)"
    "ss_inbox s1 = [auth_frame creds]"
    "server_on_cmd se (SendFrame g q) s1 = (Continue, s2)" "snd (ss_ws s2) = map MBinary qs1" "ss_inbox s2 = ss_inbox s1"
    "conn_step env (Opened (Inr (map Inr (s2c @ map Binary qs1), [])) budget t) s = s'"
    "cn_phase s' = Running (msg_loop_new (cn_env env) (cn_client s') ([], c2s @ map Binary ps) nc' t)"
    "cn_client s' = fold publish [Handshaking, Authenticating, WaitingForAuth, Online] (cn_client s)"
    "wfq_wf (ss_sched s2)" "wfq_items (ss_sched s2) = {#}"
    "duplex_linked sn dup pc (n - frame_cost pc (auth_frame creds)) (n - frame_cost pc g) (nc', acc_new) (ss_noise s2, ss_acc s2)"
    by metis
  let ?ml = "msg_loop_new (cn_env env) (cn_client s') ([], c2s @ map Binary ps) nc' t"
  have se: "se_socket se = script_socket" "se_snow se = ce_snow (cn_env env)" "se_postcard se = ce_postcard (cn_env env)"
    "se_max_bytes se = sc_max_payload_bytes scfg"
    by (simp_all add: parts config_env_def)
  from server_reads_input [OF se(1), of "map (\<lambda>_. now) ps"] on(2) have "ss_ws s1 = ([], [])"
    by (simp add: comp_def server_session_new_def)
  with server_on_cmd_input [OF se(1) on(4)] on(5) have ws: "ss_ws s2 = ([], map MBinary qs1)" by (simp add: prod_eq_iff)
  let ?quiet = "?ml\<lparr>ml_ws := ([], [])\<rparr>" and ?still = "s2\<lparr>ss_ws := ([], [])\<rparr>"
  have client: "first = cl_next_id (ml_client ?quiet)" "cl_events (ml_client ?quiet) = cl_events (cn_client s)"
    "cl_event_handler (ml_client ?quiet) = cl_event_handler (cn_client s)"
    by (simp_all add: on(9) publish_def msg_loop_new_def parts(5))
  have "in_step (cn_env env) dup (n - frame_cost pc (auth_frame creds)) (n - frame_cost pc g) ?quiet ?still"
    using on(10-12) start(2) by (simp add: in_step_def msg_loop_new_def on(9) publish_def pending_ok_def parts(1,2))
  from conversation_ok [OF sock se(1-3) this client(1), unfolded client(2,3) se(4) parts(1) [symmetric], OF talk rest, of now] on(3,6)
  obtain c' s3 where "conversation (cn_env env) se now xs (?quiet, ?still) = Some (map (Some \<circ> Inr) (replies xs), c', s3)"
    "ss_inbox s3 = auth_frame creds # asked first xs"
    "cl_events (ml_client c') = cl_events (cn_client s) @ handled (cl_event_handler (cn_client s)) (pushed xs)" by auto
  with on ws show ?thesis
    by (intro exI [of _ c2s] exI [of _ s2c] exI [of _ h] exI [of _ ns] exI [of _ ps] exI [of _ qs1] exI [of _ s1] exI [of _ s2]
        exI [of _ ?ml] exI [of _ c'] exI [of _ s3]) (simp add: msg_loop_new_def)
qed

theorem first_contact_witness:
  "\<exists>se s2c qs1 s2 ml c' s3.
    cn_phase (conn_step (sample_login_env trusting_auth) (Opened (Inr (map Inr (s2c @ map Binary qs1), [])) 1 7) sample_opening) =
      Running ml \<and>
    conversation (cn_env (sample_login_env trusting_auth)) se 7 [Ask Normal Bulk [1, 2] [3], Push Bulk [9], Notify RealTime [8], Ask RealTime Stream [4] []]
        (ml\<lparr>ml_ws := ([], [])\<rparr>, s2\<lparr>ss_ws := ([], [])\<rparr>) =
      Some ([Some (Inr [3]), Some (Inr [])], c', s3) \<and>
    ss_inbox s3 = [auth_frame [5], \<lparr>f_id = 2, f_kind = Message, f_data = [1, 2]\<rparr>, event_frame [8],
      \<lparr>f_id = 3, f_kind = Message, f_data = [4]\<rparr>]"
proof -
  let ?env = "sample_login_env trusting_auth" and ?g = "\<lparr>f_id = 1, f_kind = Message, f_data = [6]\<rparr> :: frame"
  let ?xs = "[Ask Normal Bulk [1, 2] [3], Push Bulk [9], Notify RealTime [8], Ask RealTime Stream [4] []]"
  obtain scfg where meet: "can_meet ?env sample_builder scfg sample_dup 20" and max: "sc_max_payload_bytes scfg = 4194304"
    by (rule sample_meet)
  have parts: "sample_postcard = ce_postcard (cn_env ?env)" "sample_snow = ce_snow (cn_env ?env)"
    "cc_max_payload_bytes (ce_config (cn_env ?env)) = 100"
    by (simp_all add: sample_login_env_def sample_auth_config_def)
  note costs = sample_login_costs [folded max] sample_login_costs [folded parts(3)]
  have auth: "auth_payload (cn_auth ?env) (cn_user sample_opening) = (Some [5], ())"
    "process_auth_response (cn_auth ?env) () [6] = (Success, ())"
    by (simp_all add: sample_login_env_def trusting_auth_def)
  have first: "2 = cl_next_id (cn_client sample_opening)" by (simp add: sample_opening_next_id)
  have pend: "pending_ok (cn_client sample_opening)"
    using conn_reach_ok [OF sample_opening_reach] by (simp add: conn_ok_def showing_def)
  have talk: "\<forall>f \<in> set (asked 2 ?xs). (f_kind f = Message \<longrightarrow> 0 < f_id f) \<and> frame_fits sample_postcard (sc_max_payload_bytes scfg) f"
    "\<forall>f \<in> set (answered 2 ?xs). frame_fits sample_postcard (cc_max_payload_bytes (ce_config (cn_env ?env))) f"
    "sum_list (map (frame_cost sample_postcard) (auth_frame [5] # asked 2 ?xs)) \<le> 20"
    "sum_list (map (frame_cost sample_postcard) (?g # answered 2 ?xs)) \<le> 20"
    by (simp_all add: frame_fits_def max parts(3) frame_cost_def encode_frame_def auth_frame_def event_frame_def)
  obtain url where "cn_phase sample_opening = Opening url" using sample_opening_opening by (auto simp: about_to_open_def)
  from first_contact [OF meet parts(1,2) refl refl first costs(1) costs(7) costs(4) auth this pend talk,
      of "\<lambda>n. n" "0 :: nat" 7 Normal 7]
  show ?thesis by (simp del: conversation.simps) blast
qed

section \<open>The loops that send end\<close>

text \<open>
  C38. Both flush loops end by themselves: there is one result they return for every number of
  turns above the frames that are queued (for the client, or still arrive), and fewer turns are
  the only way not to return (\<open>None\<close>); a server flush without an error has emptied the queue.
\<close>

theorem flush_loops_end:
  assumes "wfq_wf (ml_sched c)" "wfq_wf (ss_sched s)"
  shows "(\<exists>e c'. \<forall>n > wfq_len (ml_sched c) + length (concat arrivals). ml_flush ce n arrivals c = Some (e, c')) \<and>
    (\<exists>e s'. (\<forall>n > wfq_len (ss_sched s). server_flush se n s = Some (e, s')) \<and> (\<not> e \<longrightarrow> wfq_len (ss_sched s') = 0))"
proof
  let ?n = "ml_fuel arrivals c"
  have "wfq_len (ml_sched c) + length (concat arrivals) < ?n" by (simp add: ml_fuel_def)
  with ml_flush_returns [OF assms(1) this, of ce] ml_flush_enough [OF assms(1) _ this, of _ ce]
  show "\<exists>e c'. \<forall>n > wfq_len (ml_sched c) + length (concat arrivals). ml_flush ce n arrivals c = Some (e, c')" by metis
next
  let ?n = "Suc (wfq_len (ss_sched s))"
  obtain e s' where ret: "server_flush se ?n s = Some (e, s')" using server_flush_returns [OF assms(2), of ?n se] by auto
  moreover have "server_flush se n s = Some (e, s')" if "wfq_len (ss_sched s) < n" for n
    using server_flush_enough [OF assms(2) that, of ?n se] ret by simp
  moreover have "\<not> e \<longrightarrow> wfq_len (ss_sched s') = 0" using server_flush_empties [OF assms(2), of ?n se s'] ret by auto
  ultimately show "\<exists>e s'. (\<forall>n > wfq_len (ss_sched s). server_flush se n s = Some (e, s')) \<and> (\<not> e \<longrightarrow> wfq_len (ss_sched s') = 0)"
    by blast
qed

theorem flush_loops_end_witness:
  "\<exists>e c' e' s'. ml_flush sample_ml_env 3 [[WakeUp]] sample_ml = Some (e, c') \<and>
     server_flush sample_env 5 (sample_session\<lparr>ss_sched := enqueue wfq_new ping_frame Bulk\<rparr>) = Some (e', s')"
proof -
  let ?s = "sample_session\<lparr>ss_sched := enqueue wfq_new ping_frame Bulk\<rparr>"
  have "wfq_wf (ml_sched sample_ml)" "wfq_wf (ss_sched ?s)" "wfq_len (ml_sched sample_ml) = 0" "wfq_len (ss_sched ?s) = 1"
    by (simp_all add: wfq_len_items wfq_items_enqueue)
  with flush_loops_end [of sample_ml ?s "[[WakeUp]]" sample_ml_env sample_env] show ?thesis by fastforce
qed

end
